theory Spec2Isabelle
  imports Complex_Main "HOL-Library.Sublist"
begin

section \<open>Data model\<close>

text \<open>
  The three SQLite tables of \<^verbatim>\<open>layer1_mapper/mapper.py\<close> are lists of rows in rowid
  order: an \<^verbatim>\<open>INSERT\<close> appends, a \<^verbatim>\<open>DELETE\<close> filters, an \<^verbatim>\<open>UPDATE\<close> maps.  Text
  columns are strings, \<^verbatim>\<open>REAL\<close> columns are rationals (the exact value the float
  arithmetic approximates), and a timestamp is the instant \<^verbatim>\<open>datetime.utcnow()\<close>
  returned, as a number: the ISO strings the code stores have a fixed width and
  compare as the instants do.
\<close>

record entity_row =
  e_entity_id :: string
  e_fragment_count :: nat
  e_confidence :: rat
  e_created_at :: nat
  e_updated_at :: nat

record fragment_row =
  f_frag_id :: string
  f_entity_id :: string
  f_frag_type :: string
  f_value :: string
  f_source :: string
  f_confidence :: rat
  f_created_at :: nat

record erasure_row =
  er_erasure_id :: string
  er_entity_id :: string
  er_fragments_deleted :: nat
  er_requested_by :: string
  er_reason :: string
  er_timestamp :: nat

record store =
  entities :: "entity_row list"
  fragments :: "fragment_row list"
  erasures :: "erasure_row list"

text \<open>The database right after \<^verbatim>\<open>init_db()\<close> on a new file.\<close>

definition init_db :: store where
  "init_db = \<lparr>entities = [], fragments = [], erasures = []\<rparr>"

text \<open>
  A fragment as the scanner emits it is a dict with the keys \<^verbatim>\<open>type\<close>, \<^verbatim>\<open>value\<close>
  and \<^verbatim>\<open>source\<close>; the mapper reads each with \<^verbatim>\<open>.get(key, default)\<close>, so a key may
  be missing (\<open>None\<close>).  An entry of the linker's mapping is a dict with
  \<^verbatim>\<open>entity_id\<close> and an optional \<^verbatim>\<open>confidence\<close>.
\<close>

record fragment =
  ftype :: "string option"
  fvalue :: "string option"
  fsource :: "string option"

record minfo =
  m_entity_id :: string
  m_confidence :: "rat option"

type_synonym mapping = "(int \<times> minfo) list"

datatype error = IndexError | IntegrityError | ZeroDivisionError | AttributeError

text \<open>\<^verbatim>\<open>d.get(key, default)\<close>\<close>

definition dict_get :: "'a option \<Rightarrow> 'a \<Rightarrow> 'a" where
  "dict_get v d = (case v of None \<Rightarrow> d | Some x \<Rightarrow> x)"

text \<open>
  \<^verbatim>\<open>fragments[idx]\<close>: list subscription.  An index from \<open>-len\<close> up to \<open>-1\<close> selects from
  the back of the list; anything outside \<open>-len \<dots> len - 1\<close> raises.
\<close>

definition py_index :: "'a list \<Rightarrow> int \<Rightarrow> error + 'a" where
  "py_index xs i =
     (if 0 \<le> i \<and> i < int (length xs) then Inr (xs ! nat i)
      else if i < 0 \<and> - int (length xs) \<le> i then Inr (xs ! nat (int (length xs) + i))
      else Inl IndexError)"

section \<open>The entity store (mapper.py)\<close>

subsection \<open>Inserts under the PRIMARY KEY constraints\<close>

definition insert_entity :: "entity_row \<Rightarrow> store \<Rightarrow> error + store" where
  "insert_entity r s =
     (if e_entity_id r \<in> set (map e_entity_id (entities s)) then Inl IntegrityError
      else Inr (s\<lparr>entities := entities s @ [r]\<rparr>))"

definition insert_fragment :: "fragment_row \<Rightarrow> store \<Rightarrow> error + store" where
  "insert_fragment r s =
     (if f_frag_id r \<in> set (map f_frag_id (fragments s)) then Inl IntegrityError
      else Inr (s\<lparr>fragments := fragments s @ [r]\<rparr>))"

definition insert_erasure :: "erasure_row \<Rightarrow> store \<Rightarrow> error + store" where
  "insert_erasure r s =
     (if er_erasure_id r \<in> set (map er_erasure_id (erasures s)) then Inl IntegrityError
      else Inr (s\<lparr>erasures := erasures s @ [r]\<rparr>))"

text \<open>\<^verbatim>\<open>DELETE FROM fragments WHERE entity_id=?\<close> and \<^verbatim>\<open>DELETE FROM entities WHERE entity_id=?\<close>\<close>

definition delete_fragments_of :: "string \<Rightarrow> store \<Rightarrow> store" where
  "delete_fragments_of eid s = s\<lparr>fragments := filter (\<lambda>f. f_entity_id f \<noteq> eid) (fragments s)\<rparr>"

definition delete_entity_row :: "string \<Rightarrow> store \<Rightarrow> store" where
  "delete_entity_row eid s = s\<lparr>entities := filter (\<lambda>e. e_entity_id e \<noteq> eid) (entities s)\<rparr>"

text \<open>\<^verbatim>\<open>SELECT COUNT(*) FROM fragments WHERE entity_id=?\<close>\<close>

definition count_fragments :: "store \<Rightarrow> string \<Rightarrow> nat" where
  "count_fragments s eid = length (filter (\<lambda>f. f_entity_id f = eid) (fragments s))"

subsection \<open>save_mapping\<close>

text \<open>
  \<^verbatim>\<open>save_mapping(mapping, fragments)\<close>.  The mapping is the dict in insertion order.
  The call draws its timestamp once; \<open>gen k\<close> is what the \<open>k\<close>-th call of
  \<^verbatim>\<open>uuid.uuid4()\<close> in this invocation returns.  Nothing is committed when an
  exception leaves the function, so the result is either the error or the
  committed store.
\<close>

record gfrag =
  g_type :: string
  g_value :: string
  g_source :: string
  g_confidence :: rat

text \<open>\<^verbatim>\<open>grouped.setdefault(eid, []).append(x)\<close> on a dict in insertion order.\<close>

fun setdefault_append :: "'k \<Rightarrow> 'v \<Rightarrow> ('k \<times> 'v list) list \<Rightarrow> ('k \<times> 'v list) list" where
  "setdefault_append k v [] = [(k, [v])]"
| "setdefault_append k v ((k', vs) # g) =
     (if k = k' then (k', vs @ [v]) # g else (k', vs) # setdefault_append k v g)"

fun group_fragments ::
  "fragment list \<Rightarrow> mapping \<Rightarrow> (string \<times> gfrag list) list \<Rightarrow> error + (string \<times> gfrag list) list" where
  "group_fragments frs [] grouped = Inr grouped"
| "group_fragments frs ((idx, info) # rest) grouped =
     (let eid = m_entity_id info; conf = dict_get (m_confidence info) 1
      in case py_index frs idx of
           Inl err \<Rightarrow> Inl err
         | Inr frag \<Rightarrow>
             group_fragments frs rest
               (setdefault_append eid
                  \<lparr>g_type = dict_get (ftype frag) ''UNKNOWN'',
                   g_value = dict_get (fvalue frag) '''',
                   g_source = dict_get (fsource frag) ''unknown'',
                   g_confidence = conf\<rparr> grouped))"

fun insert_frag_list ::
  "string \<Rightarrow> nat \<Rightarrow> (nat \<Rightarrow> string) \<Rightarrow> nat \<Rightarrow> gfrag list \<Rightarrow> store \<Rightarrow> error + store" where
  "insert_frag_list eid ts gen k [] s = Inr s"
| "insert_frag_list eid ts gen k (frag # rest) s =
     (case insert_fragment
             \<lparr>f_frag_id = eid @ ''-'' @ gen k, f_entity_id = eid, f_frag_type = g_type frag,
              f_value = g_value frag, f_source = g_source frag,
              f_confidence = g_confidence frag, f_created_at = ts\<rparr> s of
        Inl err \<Rightarrow> Inl err
      | Inr s' \<Rightarrow> insert_frag_list eid ts gen (Suc k) rest s')"

fun insert_grouped ::
  "nat \<Rightarrow> (nat \<Rightarrow> string) \<Rightarrow> nat \<Rightarrow> (string \<times> gfrag list) list \<Rightarrow> store \<Rightarrow> error + store" where
  "insert_grouped ts gen k [] s = Inr s"
| "insert_grouped ts gen k ((eid, frag_list) # rest) s =
     (if length frag_list = 0 then Inl ZeroDivisionError
      else let avg_conf = sum_list (map g_confidence frag_list) / of_nat (length frag_list)
        in case insert_entity
                  \<lparr>e_entity_id = eid, e_fragment_count = length frag_list, e_confidence = avg_conf,
                   e_created_at = ts, e_updated_at = ts\<rparr> s of
             Inl err \<Rightarrow> Inl err
           | Inr s1 \<Rightarrow>
               (case insert_frag_list eid ts gen k frag_list s1 of
                  Inl err \<Rightarrow> Inl err
                | Inr s2 \<Rightarrow> insert_grouped ts gen (k + length frag_list) rest s2))"

definition mapping_entity_ids :: "mapping \<Rightarrow> string list" where
  "mapping_entity_ids m = remdups (map (\<lambda>(idx, info). m_entity_id info) m)"

definition clear_entities :: "string list \<Rightarrow> store \<Rightarrow> store" where
  "clear_entities entity_ids s = fold (\<lambda>eid s. delete_entity_row eid (delete_fragments_of eid s)) entity_ids s"

definition save_mapping ::
  "store \<Rightarrow> mapping \<Rightarrow> fragment list \<Rightarrow> (nat \<Rightarrow> string) \<Rightarrow> nat \<Rightarrow> error + store" where
  "save_mapping s m frs gen ts =
     (let s1 = clear_entities (mapping_entity_ids m) s
      in case group_fragments frs m [] of
           Inl err \<Rightarrow> Inl err
         | Inr grouped \<Rightarrow> insert_grouped ts gen 0 grouped s1)"

subsection \<open>get_entity\<close>

definition get_entity :: "store \<Rightarrow> string \<Rightarrow> (entity_row \<times> fragment_row list) option" where
  "get_entity s eid =
     (case find (\<lambda>e. e_entity_id e = eid) (entities s) of
        None \<Rightarrow> None
      | Some entity \<Rightarrow>
          (let frs = filter (\<lambda>f. f_entity_id f = eid) (fragments s)
           in Some (entity\<lparr>e_fragment_count := length frs\<rparr>, frs)))"

subsection \<open>delete_fragment and erase_entity\<close>

text \<open>
  Both run inside \<^verbatim>\<open>try ... except Exception\<close>: on an exception the transaction is
  rolled back, so the store is the one before the call, and the call returns
  \<^verbatim>\<open>(False, ...)\<close>.  \<open>uuid\<close> is what \<^verbatim>\<open>uuid.uuid4()\<close> returns and \<open>ts\<close> the instant
  of \<^verbatim>\<open>utcnow()\<close>, when the call reaches them.
\<close>

definition error_message :: "error \<Rightarrow> string" where
  "error_message e =
     (case e of IntegrityError \<Rightarrow> ''UNIQUE constraint failed: erasures.erasure_id''
      | IndexError \<Rightarrow> ''list index out of range''
      | ZeroDivisionError \<Rightarrow> ''division by zero''
      | AttributeError \<Rightarrow> ''object has no attribute'')"

definition delete_fragment ::
  "store \<Rightarrow> string \<Rightarrow> string \<Rightarrow> string \<Rightarrow> string \<Rightarrow> nat \<Rightarrow> store \<times> bool \<times> string" where
  "delete_fragment s frag_id requested_by reason uuid ts =
     (case find (\<lambda>f. f_frag_id f = frag_id) (fragments s) of
        None \<Rightarrow> (s, False, ''Fragment not found'')
      | Some result \<Rightarrow>
          (let entity_id = f_entity_id result;
               s1 = s\<lparr>fragments := filter (\<lambda>f. f_frag_id f \<noteq> frag_id) (fragments s)\<rparr>;
               new_count = count_fragments s1 entity_id
           in if new_count = 0 then
                (case insert_erasure
                        \<lparr>er_erasure_id = ''E-'' @ uuid, er_entity_id = entity_id,
                         er_fragments_deleted = 1, er_requested_by = requested_by,
                         er_reason = reason, er_timestamp = ts\<rparr>
                        (delete_entity_row entity_id s1) of
                   Inl e \<Rightarrow> (s, False, error_message e)
                 | Inr s2 \<Rightarrow> (s2, True, entity_id))
              else
                (s1\<lparr>entities :=
                      map (\<lambda>e. if e_entity_id e = entity_id
                                then e\<lparr>e_fragment_count := new_count, e_updated_at := ts\<rparr> else e)
                          (entities s1)\<rparr>,
                 True, entity_id)))"

definition erase_entity ::
  "store \<Rightarrow> string \<Rightarrow> string \<Rightarrow> string \<Rightarrow> string \<Rightarrow> nat \<Rightarrow> store \<times> bool \<times> nat" where
  "erase_entity s entity_id requested_by reason uuid ts =
     (let entity_exists = length (filter (\<lambda>e. e_entity_id e = entity_id) (entities s))
      in if entity_exists = 0 then (s, False, 0)
         else
           (let frag_count = count_fragments s entity_id;
                s1 = delete_entity_row entity_id (delete_fragments_of entity_id s)
            in case insert_erasure
                      \<lparr>er_erasure_id = ''ER-'' @ uuid, er_entity_id = entity_id,
                       er_fragments_deleted = frag_count, er_requested_by = requested_by,
                       er_reason = reason, er_timestamp = ts\<rparr> s1 of
                 Inl e \<Rightarrow> (s, False, 0)
               | Inr s2 \<Rightarrow> (s2, True, frag_count)))"

section \<open>Notions used in the statements\<close>

definition pk_ok :: "store \<Rightarrow> bool" where
  "pk_ok s = (distinct (map e_entity_id (entities s)) \<and> distinct (map f_frag_id (fragments s)) \<and>
              distinct (map er_erasure_id (erasures s)))"

definition count_inv :: "store \<Rightarrow> bool" where
  "count_inv s = list_all (\<lambda>e. e_fragment_count e = count_fragments s (e_entity_id e)) (entities s)"

datatype operation =
    SaveMapping mapping "fragment list" "nat \<Rightarrow> string" nat
  | DeleteFragment string string string string nat
  | EraseEntity string string string string nat

fun apply_operation :: "store \<Rightarrow> operation \<Rightarrow> store" where
  "apply_operation s (SaveMapping m frs gen ts) =
     (case save_mapping s m frs gen ts of Inl err \<Rightarrow> s | Inr s' \<Rightarrow> s')"
| "apply_operation s (DeleteFragment frag_id requested_by reason uuid ts) =
     fst (delete_fragment s frag_id requested_by reason uuid ts)"
| "apply_operation s (EraseEntity entity_id requested_by reason uuid ts) =
     fst (erase_entity s entity_id requested_by reason uuid ts)"

fun frag_rows :: "string \<Rightarrow> nat \<Rightarrow> (nat \<Rightarrow> string) \<Rightarrow> nat \<Rightarrow> gfrag list \<Rightarrow> fragment_row list" where
  "frag_rows eid ts gen k [] = []"
| "frag_rows eid ts gen k (frag # rest) =
     \<lparr>f_frag_id = eid @ ''-'' @ gen k, f_entity_id = eid, f_frag_type = g_type frag,
      f_value = g_value frag, f_source = g_source frag,
      f_confidence = g_confidence frag, f_created_at = ts\<rparr> # frag_rows eid ts gen (Suc k) rest"

fun grouped_rows :: "nat \<Rightarrow> (nat \<Rightarrow> string) \<Rightarrow> nat \<Rightarrow> (string \<times> gfrag list) list \<Rightarrow> fragment_row list" where
  "grouped_rows ts gen k [] = []"
| "grouped_rows ts gen k ((eid, frag_list) # rest) =
     frag_rows eid ts gen k frag_list @ grouped_rows ts gen (k + length frag_list) rest"

definition entity_of_group :: "nat \<Rightarrow> string \<times> gfrag list \<Rightarrow> entity_row" where
  "entity_of_group ts g =
     \<lparr>e_entity_id = fst g, e_fragment_count = length (snd g),
      e_confidence = sum_list (map g_confidence (snd g)) / of_nat (length (snd g)),
      e_created_at = ts, e_updated_at = ts\<rparr>"

text \<open>The stores that \<^verbatim>\<open>delete_fragment\<close> and \<^verbatim>\<open>erase_entity\<close> commit.\<close>

definition delete_fragment_cascade :: "store \<Rightarrow> string \<Rightarrow> string \<Rightarrow> erasure_row \<Rightarrow> store" where
  "delete_fragment_cascade s frag_id entity_id er =
     \<lparr>entities = filter (\<lambda>e. e_entity_id e \<noteq> entity_id) (entities s),
      fragments = filter (\<lambda>f. f_frag_id f \<noteq> frag_id) (fragments s),
      erasures = erasures s @ [er]\<rparr>"

definition delete_fragment_update :: "store \<Rightarrow> string \<Rightarrow> string \<Rightarrow> nat \<Rightarrow> store" where
  "delete_fragment_update s frag_id entity_id ts =
     \<lparr>entities = map (\<lambda>e. if e_entity_id e = entity_id
                then e\<lparr>e_fragment_count :=
                         length (filter (\<lambda>f. f_entity_id f = entity_id)
                                   (filter (\<lambda>f. f_frag_id f \<noteq> frag_id) (fragments s))),
                       e_updated_at := ts\<rparr>
                else e) (entities s),
      fragments = filter (\<lambda>f. f_frag_id f \<noteq> frag_id) (fragments s),
      erasures = erasures s\<rparr>"

definition erase_entity_result :: "store \<Rightarrow> string \<Rightarrow> erasure_row \<Rightarrow> store" where
  "erase_entity_result s entity_id er =
     \<lparr>entities = filter (\<lambda>e. e_entity_id e \<noteq> entity_id) (entities s),
      fragments = filter (\<lambda>f. f_entity_id f \<noteq> entity_id) (fragments s),
      erasures = erasures s @ [er]\<rparr>"

subsection \<open>Example data\<close>

definition ex_gen :: "nat \<Rightarrow> string" where
  "ex_gen k = replicate (Suc k) CHR ''u''"

definition ex_store :: store where
  "ex_store =
     \<lparr>entities = [\<lparr>e_entity_id = ''E-000001'', e_fragment_count = 2, e_confidence = 1,
                   e_created_at = 5, e_updated_at = 5\<rparr>,
                  \<lparr>e_entity_id = ''E-000002'', e_fragment_count = 1, e_confidence = 1,
                   e_created_at = 5, e_updated_at = 7\<rparr>],
      fragments = [\<lparr>f_frag_id = ''E-000001-a'', f_entity_id = ''E-000001'', f_frag_type = ''EMAIL_ADDRESS'',
                    f_value = ''alice@example.com'', f_source = ''a.txt'', f_confidence = 1, f_created_at = 5\<rparr>,
                   \<lparr>f_frag_id = ''E-000001-b'', f_entity_id = ''E-000001'', f_frag_type = ''PERSON'',
                    f_value = ''Alice'', f_source = ''a.txt'', f_confidence = 1, f_created_at = 5\<rparr>,
                   \<lparr>f_frag_id = ''E-000002-c'', f_entity_id = ''E-000002'', f_frag_type = ''EMAIL_ADDRESS'',
                    f_value = ''bob@example.com'', f_source = ''b.txt'', f_confidence = 1, f_created_at = 5\<rparr>],
      erasures = []\<rparr>"

definition ex_frags :: "fragment list" where
  "ex_frags =
     [\<lparr>ftype = Some ''EMAIL_ADDRESS'', fvalue = Some ''alice@example.com'', fsource = Some ''a.txt''\<rparr>,
      \<lparr>ftype = Some ''EMAIL_ADDRESS'', fvalue = Some ''alice@example.com'', fsource = Some ''b.txt''\<rparr>,
      \<lparr>ftype = Some ''EMAIL_ADDRESS'', fvalue = Some ''bob@example.com'', fsource = Some ''b.txt''\<rparr>]"

definition ex_mapping :: mapping where
  "ex_mapping =
     [(0, \<lparr>m_entity_id = ''E-000001'', m_confidence = Some 1\<rparr>),
      (1, \<lparr>m_entity_id = ''E-000001'', m_confidence = Some 1\<rparr>),
      (2, \<lparr>m_entity_id = ''E-000002'', m_confidence = Some 1\<rparr>)]"

definition ex_saved :: "nat \<Rightarrow> store" where
  "ex_saved ts =
     \<lparr>entities =
        [\<lparr>e_entity_id = ''E-000001'', e_fragment_count = 2, e_confidence = 1,
          e_created_at = ts, e_updated_at = ts\<rparr>,
         \<lparr>e_entity_id = ''E-000002'', e_fragment_count = 1, e_confidence = 1,
          e_created_at = ts, e_updated_at = ts\<rparr>],
      fragments =
        [\<lparr>f_frag_id = ''E-000001-u'', f_entity_id = ''E-000001'', f_frag_type = ''EMAIL_ADDRESS'',
          f_value = ''alice@example.com'', f_source = ''a.txt'', f_confidence = 1, f_created_at = ts\<rparr>,
         \<lparr>f_frag_id = ''E-000001-uu'', f_entity_id = ''E-000001'', f_frag_type = ''EMAIL_ADDRESS'',
          f_value = ''alice@example.com'', f_source = ''b.txt'', f_confidence = 1, f_created_at = ts\<rparr>,
         \<lparr>f_frag_id = ''E-000002-uuu'', f_entity_id = ''E-000002'', f_frag_type = ''EMAIL_ADDRESS'',
          f_value = ''bob@example.com'', f_source = ''b.txt'', f_confidence = 1, f_created_at = ts\<rparr>],
      erasures = []\<rparr>"

section \<open>The fragment extractor (scanner.py)\<close>

text \<open>
  \<^verbatim>\<open>scan_text(text, source)\<close> calls three detectors that live outside the repository: the
  Presidio \<^verbatim>\<open>AnalyzerEngine\<close> and the two compiled regular expressions \<^verbatim>\<open>EMAIL_RE\<close> and
  \<^verbatim>\<open>CPR_RE\<close>.  They are parameters here.  The analyzer either returns its results or
  raises; \<^verbatim>\<open>except Exception\<close> catches the exceptions derived from \<^verbatim>\<open>Exception\<close> and lets
  the others (\<^verbatim>\<open>KeyboardInterrupt\<close>, \<^verbatim>\<open>SystemExit\<close>) through.  \<^verbatim>\<open>finditer\<close> on a string
  returns the matched substrings in order and does not raise.  The function result is
  the list of lines printed together with the list of fragments.
\<close>

record recognizer_result =
  entity_type :: string
  r_start :: int
  r_end :: int

datatype 'a outcome = Returns 'a | RaisesException string | RaisesBaseException string

text \<open>\<^verbatim>\<open>text[start:end]\<close>: slice bounds are clamped, negative ones count from the end.\<close>

definition slice_bound :: "nat \<Rightarrow> int \<Rightarrow> nat" where
  "slice_bound n i = (if i < 0 then nat (max 0 (int n + i)) else min n (nat i))"

definition py_slice :: "'a list \<Rightarrow> int \<Rightarrow> int \<Rightarrow> 'a list" where
  "py_slice xs lo hi =
     take (slice_bound (length xs) hi - slice_bound (length xs) lo)
          (drop (slice_bound (length xs) lo) xs)"

definition scan_text ::
  "(string \<Rightarrow> recognizer_result list outcome) \<Rightarrow> (string \<Rightarrow> string list) \<Rightarrow>
   (string \<Rightarrow> string list) \<Rightarrow> string \<Rightarrow> string \<Rightarrow> string + (string list \<times> fragment list)" where
  "scan_text analyze email_finditer cpr_finditer text source =
     (let regex_results =
            map (\<lambda>m. \<lparr>ftype = Some ''EMAIL_ADDRESS'', fvalue = Some m, fsource = Some source\<rparr>)
                (email_finditer text) @
            map (\<lambda>m. \<lparr>ftype = Some ''CPR'', fvalue = Some m, fsource = Some source\<rparr>)
                (cpr_finditer text)
      in case analyze text of
           Returns presidio_results \<Rightarrow>
             Inr ([],
                  map (\<lambda>r. \<lparr>ftype = Some (entity_type r),
                             fvalue = Some (py_slice text (r_start r) (r_end r)),
                             fsource = Some source\<rparr>) presidio_results @ regex_results)
         | RaisesException e \<Rightarrow> Inr ([''Presidio analysis error: '' @ e], regex_results)
         | RaisesBaseException e \<Rightarrow> Inl e)"

subsection \<open>Letters without case\<close>

text \<open>The 26 letters \<open>A\<close> to \<open>Z\<close> lowered; every other byte is kept.\<close>

definition ascii_lower :: "char \<Rightarrow> char" where
  "ascii_lower c =
     (if (65::nat) \<le> of_char c \<and> of_char c \<le> (90::nat) then char_of (of_char c + (32::nat)) else c)"

subsection \<open>search_entities\<close>

text \<open>
  SQLite's \<^verbatim>\<open>LIKE\<close>, as the built-in function computes it.  Pattern and text are read
  as C strings, so each ends at its first NUL byte.  In the pattern \<^verbatim>\<open>%\<close> stands for any
  run of characters and \<^verbatim>\<open>_\<close> for any one character, which in UTF-8 is a lead byte of
  value 192 or more together with the continuation bytes (128 to 191) after it; every
  other byte stands for itself, the 26 ASCII letters without regard to case.  There is
  no escape character unless the query names one.
\<close>

definition c_string :: "string \<Rightarrow> string" where
  "c_string s = takeWhile (\<lambda>c. c \<noteq> CHR 0x00) s"

definition skip_char :: "char \<Rightarrow> string \<Rightarrow> string" where
  "skip_char c cs =
     (if (192::nat) \<le> of_char c
      then dropWhile (\<lambda>d. (128::nat) \<le> of_char d \<and> of_char d < (192::nat)) cs else cs)"

function like :: "string \<Rightarrow> string \<Rightarrow> bool" where
  "like [] [] = True"
| "like [] (c # cs) = False"
| "like (p # ps) [] = (p = CHR ''%'' \<and> like ps [])"
| "like (p # ps) (c # cs) =
     (if p = CHR ''%'' then like ps (c # cs) \<or> like (p # ps) cs
      else if p = CHR ''_'' then like ps (skip_char c cs)
      else ascii_lower p = ascii_lower c \<and> like ps cs)"
  by pat_completeness auto
termination
proof (relation "measure (\<lambda>(p, t). length p + length t)")
  fix p c :: char and ps cs :: string
  have "length (skip_char c cs) \<le> length cs"
    by (simp add: skip_char_def length_dropWhile_le)
  then show "((ps, skip_char c cs), p # ps, c # cs) \<in> measure (\<lambda>(p, t). length p + length t)"
    by simp
qed auto

definition sqlite_like :: "string \<Rightarrow> string \<Rightarrow> bool" where
  "sqlite_like pattern text = like (c_string pattern) (c_string text)"

text \<open>
  \<^verbatim>\<open>ORDER BY e.updated_at DESC\<close>.  SQL leaves the order of rows with equal keys open;
  here they stay in table order.
\<close>

definition order_by_updated_desc :: "entity_row list \<Rightarrow> entity_row list" where
  "order_by_updated_desc es = sort_key (\<lambda>e. - int (e_updated_at e)) es"

text \<open>
  The query joins entities with their fragments, keeps the pairs whose fragment matches,
  and applies \<^verbatim>\<open>DISTINCT\<close>, \<^verbatim>\<open>ORDER BY\<close> and \<^verbatim>\<open>LIMIT 50\<close>.  A result row has the four
  selected columns.  \<^verbatim>\<open>DISTINCT\<close> is taken on the entity rows: \<open>entity_id\<close> is the primary
  key, so equal selected columns mean the same entity row.  SQLite scans the fragments
  table and evaluates the \<^verbatim>\<open>WHERE\<close> clause on each of its rows; \<^verbatim>\<open>LIKE\<close> refuses a pattern
  of more than 50000 bytes, and the call then raises \<^verbatim>\<open>OperationalError\<close> (there is no
  \<^verbatim>\<open>try\<close> in this function).  With no fragment row \<^verbatim>\<open>LIKE\<close> is never evaluated.
\<close>

datatype sqlite_error = OperationalError

definition search_entities ::
  "store \<Rightarrow> string \<Rightarrow> sqlite_error + (string \<times> nat \<times> rat \<times> nat) list" where
  "search_entities s query =
     (let search_pattern = ''%'' @ query @ ''%'';
          joined = concat (map (\<lambda>e. map (\<lambda>f. e)
                     (filter (\<lambda>f. e_entity_id e = f_entity_id f \<and>
                                  (sqlite_like search_pattern (f_value f) \<or>
                                   sqlite_like search_pattern (f_frag_type f)))
                             (fragments s))) (entities s))
      in if fragments s \<noteq> [] \<and> 50000 < length search_pattern then Inl OperationalError
         else Inr (map (\<lambda>e. (e_entity_id e, e_fragment_count e, e_confidence e, e_created_at e))
                       (take 50 (order_by_updated_desc (remdups joined)))))"







section \<open>The entity linker (linker.py)\<close>

subsection \<open>difflib.SequenceMatcher(None, a, b).ratio()\<close>

text \<open>
  The similarity is computed by Python's standard library, as follows.  With no junk
  predicate the junk set is empty; with \<^verbatim>\<open>autojunk\<close> on, the elements of a \<open>b\<close> of at
  least 200 elements that occur more than \<open>len(b) // 100 + 1\<close> times are ``popular''
  and are left out of the index \<^verbatim>\<open>b2j\<close>.  \<^verbatim>\<open>find_longest_match(alo, ahi, blo, bhi)\<close> keeps,
  for the current \<open>i\<close>, the table \<^verbatim>\<open>j2len\<close> of the lengths of the matches that end at
  \<open>a[i]\<close> and \<open>b[j]\<close> (a row of numbers here, 0 for an absent key), takes the first
  strictly longer match in the order of \<open>i\<close>, then \<open>j\<close>, and extends it on both ends
  over equal elements.  \<^verbatim>\<open>get_matching_blocks\<close> applies it to the whole range and then
  to the ranges left and right of each match; \<^verbatim>\<open>ratio\<close> is twice the total size of the
  matches divided by the two lengths together, and 1.0 for two empty sequences.
\<close>

definition bpopular :: "'a list \<Rightarrow> 'a list" where
  "bpopular b =
     (if 200 \<le> length b
      then filter (\<lambda>elt. length b div 100 + 1 < count_list b elt) (remdups b) else [])"

definition new_j2len :: "'a list \<Rightarrow> 'a list \<Rightarrow> nat \<Rightarrow> nat \<Rightarrow> 'a \<Rightarrow> nat list \<Rightarrow> nat list" where
  "new_j2len b popular blo bhi x j2len =
     map (\<lambda>j. if blo \<le> j \<and> j < bhi \<and> b ! j = x \<and> x \<notin> set popular
               then (if j = 0 then 0 else j2len ! (j - 1)) + 1 else 0)
         [0..<length b]"

fun best_in_row :: "nat \<Rightarrow> nat \<Rightarrow> nat list \<Rightarrow> nat \<times> nat \<times> nat \<Rightarrow> nat \<times> nat \<times> nat" where
  "best_in_row i j [] best = best"
| "best_in_row i j (k # ks) (besti, bestj, bestsize) =
     best_in_row i (Suc j) ks
       (if bestsize < k then (i + 1 - k, j + 1 - k, k) else (besti, bestj, bestsize))"

function longest_loop ::
  "'a list \<Rightarrow> 'a list \<Rightarrow> 'a list \<Rightarrow> nat \<Rightarrow> nat \<Rightarrow> nat \<Rightarrow> nat \<Rightarrow> nat list \<Rightarrow>
   nat \<times> nat \<times> nat \<Rightarrow> nat \<times> nat \<times> nat" where
  "longest_loop a b popular ahi blo bhi i j2len best =
     (if i < ahi
      then (let newj2len = new_j2len b popular blo bhi (a ! i) j2len
            in longest_loop a b popular ahi blo bhi (Suc i) newj2len (best_in_row i 0 newj2len best))
      else best)"
  by pat_completeness auto
termination
  by (relation "measure (\<lambda>(a, b, popular, ahi, blo, bhi, i, j2len, best). ahi - i)") auto

function extend_left :: "'a list \<Rightarrow> 'a list \<Rightarrow> nat \<Rightarrow> nat \<Rightarrow> nat \<times> nat \<times> nat \<Rightarrow> nat \<times> nat \<times> nat" where
  "extend_left a b alo blo (besti, bestj, bestsize) =
     (if alo < besti \<and> blo < bestj \<and> a ! (besti - 1) = b ! (bestj - 1)
      then extend_left a b alo blo (besti - 1, bestj - 1, bestsize + 1)
      else (besti, bestj, bestsize))"
  by pat_completeness auto
termination
  by (relation "measure (\<lambda>(a, b, alo, blo, besti, bestj, bestsize). besti)") auto

function extend_right :: "'a list \<Rightarrow> 'a list \<Rightarrow> nat \<Rightarrow> nat \<Rightarrow> nat \<times> nat \<times> nat \<Rightarrow> nat \<times> nat \<times> nat" where
  "extend_right a b ahi bhi (besti, bestj, bestsize) =
     (if besti + bestsize < ahi \<and> bestj + bestsize < bhi \<and>
         a ! (besti + bestsize) = b ! (bestj + bestsize)
      then extend_right a b ahi bhi (besti, bestj, bestsize + 1)
      else (besti, bestj, bestsize))"
  by pat_completeness auto
termination
  by (relation "measure (\<lambda>(a, b, ahi, bhi, besti, bestj, bestsize). ahi - (besti + bestsize))") auto

declare longest_loop.simps [simp del] extend_left.simps [simp del] extend_right.simps [simp del]

definition find_longest_match ::
  "'a list \<Rightarrow> 'a list \<Rightarrow> 'a list \<Rightarrow> nat \<Rightarrow> nat \<Rightarrow> nat \<Rightarrow> nat \<Rightarrow> nat \<times> nat \<times> nat" where
  "find_longest_match a b popular alo ahi blo bhi =
     extend_right a b ahi bhi
       (extend_left a b alo blo
          (longest_loop a b popular ahi blo bhi alo (replicate (length b) 0) (alo, blo, 0)))"


lemma best_in_row_bounds:
  assumes "\<forall>k\<in>set row. k \<le> i + 1 - alo" "alo \<le> i" "i < ahi"
    "alo \<le> fst best" "fst best + snd (snd best) \<le> ahi"
  shows "alo \<le> fst (best_in_row i j row best) \<and>
         fst (best_in_row i j row best) + snd (snd (best_in_row i j row best)) \<le> ahi"
  using assms
proof (induction row arbitrary: j best)
  case Nil
  then show ?case by simp
next
  case (Cons k ks)
  obtain bi bj bs where best: "best = (bi, bj, bs)" by (cases best)
  let ?new = "if bs < k then (i + 1 - k, j + 1 - k, k) else (bi, bj, bs)"
  from Cons.prems best have "alo \<le> fst ?new \<and> fst ?new + snd (snd ?new) \<le> ahi"
    by auto
  with Cons.IH [of ?new "Suc j"] Cons.prems(1,2,3) show ?case
    by (simp add: best)
qed

lemma new_j2len_bound:
  assumes "\<forall>k\<in>set j2len. k \<le> i - alo" "length j2len = length b" "alo \<le> i"
  shows "\<forall>k\<in>set (new_j2len b popular blo bhi x j2len). k \<le> i + 1 - alo"
    and "length (new_j2len b popular blo bhi x j2len) = length b"
proof -
  have "j2len ! (j - 1) + 1 \<le> i + 1 - alo" if "0 < j" "j < length b" for j
  proof -
    from that assms(2) have "j2len ! (j - 1) \<in> set j2len" by simp
    with assms(1) have "j2len ! (j - 1) \<le> i - alo" by blast
    with assms(3) show ?thesis by simp
  qed
  moreover have "1 \<le> i + 1 - alo" using assms(3) by simp
  ultimately show "\<forall>k\<in>set (new_j2len b popular blo bhi x j2len). k \<le> i + 1 - alo"
    by (auto simp: new_j2len_def)
  show "length (new_j2len b popular blo bhi x j2len) = length b"
    by (simp add: new_j2len_def)
qed

lemma longest_loop_bounds:
  assumes "\<forall>k\<in>set j2len. k \<le> i - alo" "length j2len = length b" "alo \<le> i"
    "alo \<le> fst best" "fst best + snd (snd best) \<le> ahi"
  shows "alo \<le> fst (longest_loop a b popular ahi blo bhi i j2len best) \<and>
         fst (longest_loop a b popular ahi blo bhi i j2len best) +
           snd (snd (longest_loop a b popular ahi blo bhi i j2len best)) \<le> ahi"
  using assms
proof (induction a b popular ahi blo bhi i j2len best rule: longest_loop.induct)
  case (1 a b popular ahi blo bhi i j2len best)
  show ?case
  proof (cases "i < ahi")
    case False
    then have "longest_loop a b popular ahi blo bhi i j2len best = best"
      by (subst longest_loop.simps) simp
    with "1.prems" show ?thesis by simp
  next
    case True
    let ?row = "new_j2len b popular blo bhi (a ! i) j2len"
    have r: "\<forall>k\<in>set ?row. k \<le> i + 1 - alo" "length ?row = length b"
      using new_j2len_bound [OF "1.prems"(1,2,3)] by auto
    have b: "alo \<le> fst (best_in_row i 0 ?row best) \<and>
         fst (best_in_row i 0 ?row best) + snd (snd (best_in_row i 0 ?row best)) \<le> ahi"
      using best_in_row_bounds [OF r(1) "1.prems"(3) True "1.prems"(4,5)] .
    from r(1) have r': "\<forall>k\<in>set ?row. k \<le> Suc i - alo" by simp
    have "alo \<le> Suc i" using "1.prems"(3) by simp
    have eq: "longest_loop a b popular ahi blo bhi i j2len best =
        longest_loop a b popular ahi blo bhi (Suc i) ?row (best_in_row i 0 ?row best)"
      using True by (subst longest_loop.simps) (simp add: Let_def)
    from "1.IH" [OF True refl r' r(2) \<open>alo \<le> Suc i\<close>] b
    show ?thesis unfolding eq by simp
  qed
qed

lemma extend_left_bounds:
  "alo \<le> fst best \<Longrightarrow> fst best + snd (snd best) \<le> ahi \<Longrightarrow>
     alo \<le> fst (extend_left a b alo blo best) \<and>
     fst (extend_left a b alo blo best) + snd (snd (extend_left a b alo blo best)) \<le> ahi"
proof (induction a b alo blo best rule: extend_left.induct)
  case (1 a b alo blo besti bestj bestsize)
  show ?case
  proof (cases "alo < besti \<and> blo < bestj \<and> a ! (besti - 1) = b ! (bestj - 1)")
    case True
    then have eq: "extend_left a b alo blo (besti, bestj, bestsize) =
        extend_left a b alo blo (besti - 1, bestj - 1, bestsize + 1)"
      by (subst extend_left.simps) simp
    from True "1.prems" "1.IH" show ?thesis unfolding eq by auto
  next
    case False
    then have "extend_left a b alo blo (besti, bestj, bestsize) = (besti, bestj, bestsize)"
      by (subst extend_left.simps) auto
    with "1.prems" show ?thesis by simp
  qed
qed

lemma extend_right_bounds:
  "alo \<le> fst best \<Longrightarrow> fst best + snd (snd best) \<le> ahi \<Longrightarrow>
     alo \<le> fst (extend_right a b ahi bhi best) \<and>
     fst (extend_right a b ahi bhi best) + snd (snd (extend_right a b ahi bhi best)) \<le> ahi"
proof (induction a b ahi bhi best rule: extend_right.induct)
  case (1 a b ahi bhi besti bestj bestsize)
  show ?case
  proof (cases "besti + bestsize < ahi \<and> bestj + bestsize < bhi \<and>
         a ! (besti + bestsize) = b ! (bestj + bestsize)")
    case True
    then have eq: "extend_right a b ahi bhi (besti, bestj, bestsize) =
        extend_right a b ahi bhi (besti, bestj, bestsize + 1)"
      by (subst extend_right.simps) simp
    from True "1.prems" "1.IH" show ?thesis unfolding eq by auto
  next
    case False
    then have "extend_right a b ahi bhi (besti, bestj, bestsize) = (besti, bestj, bestsize)"
      by (subst extend_right.simps) auto
    with "1.prems" show ?thesis by simp
  qed
qed

lemma find_longest_match_bounds:
  assumes "alo \<le> ahi" "find_longest_match a b popular alo ahi blo bhi = (i, j, k)"
  shows "alo \<le> i \<and> i + k \<le> ahi"
proof -
  let ?l = "longest_loop a b popular ahi blo bhi alo (replicate (length b) 0) (alo, blo, 0)"
  have "alo \<le> fst ?l \<and> fst ?l + snd (snd ?l) \<le> ahi"
    using assms(1) by (intro longest_loop_bounds) auto
  then have "alo \<le> fst (extend_left a b alo blo ?l) \<and>
     fst (extend_left a b alo blo ?l) + snd (snd (extend_left a b alo blo ?l)) \<le> ahi"
    by (intro extend_left_bounds) auto
  then have "alo \<le> fst (find_longest_match a b popular alo ahi blo bhi) \<and>
     fst (find_longest_match a b popular alo ahi blo bhi) +
       snd (snd (find_longest_match a b popular alo ahi blo bhi)) \<le> ahi"
    unfolding find_longest_match_def by (intro extend_right_bounds) auto
  with assms(2) show ?thesis by simp
qed

lemma find_longest_match_empty:
  assumes "\<not> alo \<le> ahi"
  shows "find_longest_match a b popular alo ahi blo bhi = (alo, blo, 0)"
  using assms
  by (simp add: find_longest_match_def longest_loop.simps [of _ _ _ ahi _ _ alo]
      extend_left.simps [of _ _ alo _ alo] extend_right.simps [of _ _ ahi _ alo _ 0])


lemma find_longest_match_range:
  assumes "(i, y) = find_longest_match a b popular alo ahi blo bhi" "(j, k) = y" "0 < k"
  shows "alo \<le> i \<and> i + k \<le> ahi"
proof -
  from assms have m: "find_longest_match a b popular alo ahi blo bhi = (i, j, k)" by simp
  have "alo \<le> ahi"
  proof (rule ccontr)
    assume "\<not> alo \<le> ahi"
    from find_longest_match_empty [OF this, of a b popular blo bhi] m assms(3) show False by simp
  qed
  from find_longest_match_bounds [OF this m] show ?thesis .
qed

function matching_size :: "'a list \<Rightarrow> 'a list \<Rightarrow> 'a list \<Rightarrow> nat \<Rightarrow> nat \<Rightarrow> nat \<Rightarrow> nat \<Rightarrow> nat" where
  "matching_size a b popular alo ahi blo bhi =
     (case find_longest_match a b popular alo ahi blo bhi of
        (i, j, k) \<Rightarrow>
          if k = 0 then 0
          else k + (if alo < i \<and> blo < j then matching_size a b popular alo i blo j else 0)
                 + (if i + k < ahi \<and> j + k < bhi
                    then matching_size a b popular (i + k) ahi (j + k) bhi else 0))"
  by pat_completeness auto
termination
  apply (relation "measure (\<lambda>(a, b, popular, alo, ahi, blo, bhi). ahi - alo)")
  apply simp
  subgoal for a b popular alo ahi blo bhi i y j k
    using find_longest_match_range [of i y a b popular alo ahi blo bhi j k] by auto
  subgoal for a b popular alo ahi blo bhi i y j k
    using find_longest_match_range [of i y a b popular alo ahi blo bhi j k] by auto
  done

declare matching_size.simps [simp del]

definition ratio :: "'a list \<Rightarrow> 'a list \<Rightarrow> rat" where
  "ratio a b =
     (let matches = matching_size a b (bpopular b) 0 (length a) 0 (length b);
          length = length a + length b
      in if length \<noteq> 0 then 2 * of_nat matches / of_nat length else 1)"


subsection \<open>Normalising a value, formatting an entity id, rounding a score\<close>

text \<open>
  \<^verbatim>\<open>str.lower()\<close> and \<^verbatim>\<open>str.strip()\<close> on ASCII text: the letters \<open>A\<close> to \<open>Z\<close> are
  lowered, and the white space stripped from both ends is the characters 9 to 13, 28 to
  31 and the space.  A character from 128 on is kept by both, so the two functions
  are those of Python on values of ASCII characters only; Python also lowers the
  letters beyond ASCII and strips the white space beyond it, such as U+0085 and
  U+00A0.
\<close>

definition lower :: "string \<Rightarrow> string" where
  "lower s = map ascii_lower s"

definition isspace :: "char \<Rightarrow> bool" where
  "isspace c = ((9::nat) \<le> of_char c \<and> of_char c \<le> (13::nat) \<or>
                (28::nat) \<le> of_char c \<and> of_char c \<le> (32::nat))"

definition strip :: "string \<Rightarrow> string" where
  "strip s = rev (dropWhile isspace (rev (dropWhile isspace s)))"

text \<open>\<^verbatim>\<open>f"E-{entity_counter:06d}"\<close>: the decimal digits, padded with zeros to six places.\<close>

fun decimal :: "nat \<Rightarrow> string" where
  "decimal n = (if n < 10 then [char_of (48 + n)] else decimal (n div 10) @ [char_of (48 + n mod 10)])"

declare decimal.simps [simp del]

definition format_entity_id :: "nat \<Rightarrow> string" where
  "format_entity_id n = ''E-'' @ replicate (6 - length (decimal n)) (CHR ''0'') @ decimal n"

text \<open>
  A similarity is a binary64 float: the division in \<^verbatim>\<open>ratio\<close> returns the float nearest
  to the exact quotient, a tie going to the even mantissa.  \<open>float_of\<close> is this rounding
  for values in the normal range of the format, which holds every quotient of two
  lengths; it keeps a value that is a float already.
\<close>

fun bit_length :: "nat \<Rightarrow> nat" where
  "bit_length n = (if n = 0 then 0 else Suc (bit_length (n div 2)))"

declare bit_length.simps [simp del]

definition pow2 :: "int \<Rightarrow> rat" where
  "pow2 e = (if 0 \<le> e then 2 ^ nat e else 1 / 2 ^ nat (- e))"

definition round_half_even :: "rat \<Rightarrow> int" where
  "round_half_even x =
     (let f = \<lfloor>x\<rfloor>; d = x - of_int f
      in if d < 1 / 2 then f else if 1 / 2 < d then f + 1
         else if even f then f else f + 1)"

definition binary_exponent :: "rat \<Rightarrow> int" where
  "binary_exponent x =
     (let e = int (bit_length (nat (fst (quotient_of x)))) -
              int (bit_length (nat (snd (quotient_of x))))
      in if pow2 e \<le> x then e else e - 1)"

definition float_of :: "rat \<Rightarrow> rat" where
  "float_of x =
     (if x = 0 then 0
      else let ulp = pow2 (binary_exponent \<bar>x\<bar> - 52)
           in sgn x * of_int (round_half_even (\<bar>x\<bar> / ulp)) * ulp)"

text \<open>
  \<^verbatim>\<open>round(x, 2)\<close> of a float: the exact value of the float goes to the nearest multiple
  of 1/100, a tie to the even one, and the result is the float that prints as this
  decimal, which the model writes as the decimal itself.  So 37/40, whose float lies
  just above 0.925, gives 0.93.
\<close>

definition round2 :: "rat \<Rightarrow> rat" where
  "round2 x = of_int (round_half_even (float_of x * 100)) / 100"


subsection \<open>cluster_fragments\<close>

text \<open>
  \<^verbatim>\<open>cluster_fragments(fragments, score_threshold)\<close>.  The data frame built from the list
  of dicts has a \<^verbatim>\<open>value\<close> column when at least one fragment has the key; a fragment
  without it then carries \<^verbatim>\<open>NaN\<close> there, which \<^verbatim>\<open>str\<close> turns into \<^verbatim>\<open>nan\<close> and on which
  \<^verbatim>\<open>.lower()\<close> raises.  The state of the loop is the dict \<^verbatim>\<open>entity_groups\<close> (entity id
  and the values of the members, in insertion order), the mapping and the counter.  The
  annotated data frame, the second component of the result, is left out: it repeats
  the mapping row by row.
\<close>

record cluster_state =
  entity_groups :: "(string \<times> string option list) list"
  cmapping :: mapping
  entity_counter :: nat

text \<open>\<^verbatim>\<open>[v["value"].lower().strip() for v in group["members"]]\<close>\<close>

fun existing_vals :: "string option list \<Rightarrow> error + string list" where
  "existing_vals [] = Inr []"
| "existing_vals (None # vs) = Inl AttributeError"
| "existing_vals (Some v # vs) =
     (case existing_vals vs of Inl err \<Rightarrow> Inl err | Inr evs \<Rightarrow> Inr (strip (lower v) # evs))"

fun max_list :: "rat list \<Rightarrow> rat" where
  "max_list [] = 0"
| "max_list [x] = x"
| "max_list (x # y # ys) = max x (max_list (y # ys))"

text \<open>
  The inner loop over \<^verbatim>\<open>entity_groups.items()\<close>: the first group whose best similarity
  reaches the threshold takes the row as a new member, and the loop stops there.
\<close>

fun match_groups ::
  "rat \<Rightarrow> string \<Rightarrow> string option \<Rightarrow> (string \<times> string option list) list \<Rightarrow>
   error + (string \<times> rat \<times> (string \<times> string option list) list) option" where
  "match_groups score_threshold val row [] = Inr None"
| "match_groups score_threshold val row ((eid, members) # rest) =
     (case existing_vals members of
        Inl err \<Rightarrow> Inl err
      | Inr evs \<Rightarrow>
          (let similarities = map (\<lambda>ev. ratio val ev) evs;
               max_similarity = (if similarities \<noteq> [] then max_list similarities else 0)
           in if score_threshold \<le> max_similarity
              then Inr (Some (eid, max_similarity, (eid, members @ [row]) # rest))
              else (case match_groups score_threshold val row rest of
                      Inl err \<Rightarrow> Inl err
                    | Inr None \<Rightarrow> Inr None
                    | Inr (Some (eid', sim, rest')) \<Rightarrow> Inr (Some (eid', sim, (eid, members) # rest')))))"

text \<open>\<^verbatim>\<open>d[k] = v\<close> on a dict in insertion order.\<close>

fun dict_set :: "'k \<Rightarrow> 'v \<Rightarrow> ('k \<times> 'v) list \<Rightarrow> ('k \<times> 'v) list" where
  "dict_set k v [] = [(k, v)]"
| "dict_set k v ((k', v') # d) = (if k = k' then (k, v) # d else (k', v') # dict_set k v d)"

definition cluster_row :: "rat \<Rightarrow> int \<Rightarrow> fragment \<Rightarrow> cluster_state \<Rightarrow> error + cluster_state" where
  "cluster_row score_threshold i row st =
     (let val = strip (lower (case fvalue row of None \<Rightarrow> ''nan'' | Some v \<Rightarrow> v))
      in if val = [] then Inr st
         else case match_groups score_threshold val (fvalue row) (entity_groups st) of
                Inl err \<Rightarrow> Inl err
              | Inr (Some (eid, max_similarity, groups)) \<Rightarrow>
                  Inr (st\<lparr>entity_groups := groups,
                          cmapping := cmapping st @
                            [(i, \<lparr>m_entity_id = eid, m_confidence = Some (round2 max_similarity)\<rparr>)]\<rparr>)
              | Inr None \<Rightarrow>
                  (let entity_counter = entity_counter st + 1;
                       eid = format_entity_id entity_counter
                   in Inr \<lparr>entity_groups = dict_set eid [fvalue row] (entity_groups st),
                           cmapping = cmapping st @ [(i, \<lparr>m_entity_id = eid, m_confidence = Some 1\<rparr>)],
                           entity_counter = entity_counter\<rparr>))"

fun cluster_rows :: "rat \<Rightarrow> int \<Rightarrow> fragment list \<Rightarrow> cluster_state \<Rightarrow> error + cluster_state" where
  "cluster_rows score_threshold i [] st = Inr st"
| "cluster_rows score_threshold i (row # rows) st =
     (case cluster_row score_threshold i row st of
        Inl err \<Rightarrow> Inl err
      | Inr st' \<Rightarrow> cluster_rows score_threshold (i + 1) rows st')"

definition cluster_fragments :: "fragment list \<Rightarrow> rat \<Rightarrow> error + mapping" where
  "cluster_fragments frs score_threshold =
     (if list_all (\<lambda>f. fvalue f = None) frs then Inr []
      else case cluster_rows score_threshold 0 frs
                  \<lparr>entity_groups = [], cmapping = [], entity_counter = 0\<rparr> of
             Inl err \<Rightarrow> Inl err
           | Inr st \<Rightarrow> Inr (cmapping st))"

definition value_of :: "string \<Rightarrow> nat" where
  "value_of s = foldl (\<lambda>acc c. 10 * acc + (of_char c - 48)) 0 s"

definition members_of :: "(string \<times> string option list) list \<Rightarrow> string option set" where
  "members_of gs = (\<Union>g\<in>set gs. set (snd g))"

definition ids_ok :: "cluster_state \<Rightarrow> bool" where
  "ids_ok st =
     (map fst (entity_groups st) = map format_entity_id [1..<Suc (entity_counter st)] \<and>
      set (map (\<lambda>(idx, info). m_entity_id info) (cmapping st)) = set (map fst (entity_groups st)) \<and>
      (\<forall>g\<in>set (entity_groups st). snd g \<noteq> []))"

definition norm_value :: "string option \<Rightarrow> string" where
  "norm_value v = strip (lower (case v of None \<Rightarrow> ''nan'' | Some x \<Rightarrow> x))"

definition entity_count :: "mapping \<Rightarrow> nat" where
  "entity_count m = length (mapping_entity_ids m)"

definition avg_fragments_per_entity :: "mapping \<Rightarrow> rat" where
  "avg_fragments_per_entity m =
     (if entity_count m = 0 then 0 else of_nat (length m) / of_nat (entity_count m))"

definition initial_state :: cluster_state where
  "initial_state = \<lparr>entity_groups = [], cmapping = [], entity_counter = 0\<rparr>"

definition ex_alice :: fragment where
  "ex_alice = \<lparr>ftype = Some ''EMAIL_ADDRESS'', fvalue = Some ''alice@example.com'', fsource = Some ''a.txt''\<rparr>"

definition ex_bob :: fragment where
  "ex_bob = \<lparr>ftype = Some ''EMAIL_ADDRESS'', fvalue = Some ''bob@example.com'', fsource = Some ''b.txt''\<rparr>"

definition ex_store_alice :: store where
  "ex_store_alice =
     \<lparr>entities = [\<lparr>e_entity_id = ''E-000001'', e_fragment_count = 1, e_confidence = 1,
                   e_created_at = 5, e_updated_at = 5\<rparr>],
      fragments = [\<lparr>f_frag_id = ''E-000001-u'', f_entity_id = ''E-000001'', f_frag_type = ''EMAIL_ADDRESS'',
                    f_value = ''alice@example.com'', f_source = ''a.txt'', f_confidence = 1, f_created_at = 5\<rparr>],
      erasures = []\<rparr>"

definition ex_store_bob :: store where
  "ex_store_bob =
     \<lparr>entities = [\<lparr>e_entity_id = ''E-000001'', e_fragment_count = 1, e_confidence = 1,
                   e_created_at = 8, e_updated_at = 8\<rparr>],
      fragments = [\<lparr>f_frag_id = ''E-000001-u'', f_entity_id = ''E-000001'', f_frag_type = ''EMAIL_ADDRESS'',
                    f_value = ''bob@example.com'', f_source = ''b.txt'', f_confidence = 1, f_created_at = 8\<rparr>],
      erasures = []\<rparr>"

section \<open>Properties of the store\<close>

lemma clear_entities_eq:
  "clear_entities ids s =
     s\<lparr>entities := filter (\<lambda>e. e_entity_id e \<notin> set ids) (entities s),
       fragments := filter (\<lambda>f. f_entity_id f \<notin> set ids) (fragments s)\<rparr>"
  unfolding clear_entities_def
proof (induction ids arbitrary: s)
  case Nil
  show ?case by simp
next
  case (Cons a ids)
  have "fold (\<lambda>eid s. delete_entity_row eid (delete_fragments_of eid s)) (a # ids) s =
        fold (\<lambda>eid s. delete_entity_row eid (delete_fragments_of eid s)) ids
          (delete_entity_row a (delete_fragments_of a s))"
    by simp
  also have "\<dots> = (delete_entity_row a (delete_fragments_of a s))
      \<lparr>entities := filter (\<lambda>e. e_entity_id e \<notin> set ids)
                    (entities (delete_entity_row a (delete_fragments_of a s))),
       fragments := filter (\<lambda>f. f_entity_id f \<notin> set ids)
                    (fragments (delete_entity_row a (delete_fragments_of a s)))\<rparr>"
    by (rule Cons.IH)
  also have "\<dots> = s\<lparr>entities := filter (\<lambda>e. e_entity_id e \<notin> set (a # ids)) (entities s),
       fragments := filter (\<lambda>f. f_entity_id f \<notin> set (a # ids)) (fragments s)\<rparr>"
    by (simp add: delete_entity_row_def delete_fragments_of_def conj_commute)
  finally show ?case .
qed

lemma insert_frag_list_eq:
  "insert_frag_list eid ts gen k fl s = Inr s' \<Longrightarrow>
     s' = s\<lparr>fragments := fragments s @ frag_rows eid ts gen k fl\<rparr>"
proof (induction fl arbitrary: s k)
  case Nil
  then show ?case by simp
next
  case (Cons a fl)
  from Cons.prems obtain s1 where
    s1: "s1 = s\<lparr>fragments := fragments s @ [\<lparr>f_frag_id = eid @ ''-'' @ gen k, f_entity_id = eid,
              f_frag_type = g_type a, f_value = g_value a, f_source = g_source a,
              f_confidence = g_confidence a, f_created_at = ts\<rparr>]\<rparr>" and
    rec: "insert_frag_list eid ts gen (Suc k) fl s1 = Inr s'"
    by (auto simp: insert_fragment_def split: sum.splits if_splits)
  from Cons.IH [OF rec] show ?case by (simp add: s1)
qed

lemma insert_grouped_eq:
  "insert_grouped ts gen k G s = Inr s' \<Longrightarrow>
     s' = s\<lparr>entities := entities s @ map (entity_of_group ts) G,
            fragments := fragments s @ grouped_rows ts gen k G\<rparr>"
proof (induction G arbitrary: s k)
  case Nil
  then show ?case by simp
next
  case (Cons g G)
  obtain eid fl where g: "g = (eid, fl)" by (cases g)
  from Cons.prems g obtain s1 s2 where
    s1: "insert_entity (entity_of_group ts (eid, fl)) s = Inr s1" and
    s2: "insert_frag_list eid ts gen k fl s1 = Inr s2" and
    s3: "insert_grouped ts gen (k + length fl) G s2 = Inr s'"
    by (auto simp: Let_def entity_of_group_def split: if_splits sum.splits)
  from s1 have e1: "s1 = s\<lparr>entities := entities s @ [entity_of_group ts (eid, fl)]\<rparr>"
    by (auto simp: insert_entity_def split: if_splits)
  from insert_frag_list_eq [OF s2] have e2: "s2 = s1\<lparr>fragments := fragments s1 @ frag_rows eid ts gen k fl\<rparr>" .
  from Cons.IH [OF s3] show ?case
    by (simp add: e1 e2 g)
qed

lemma frag_rows_entity: "f \<in> set (frag_rows eid ts gen k fl) \<Longrightarrow> f_entity_id f = eid"
  by (induction fl arbitrary: k) auto

lemma length_frag_rows [simp]: "length (frag_rows eid ts gen k fl) = length fl"
  by (induction fl arbitrary: k) auto

lemma grouped_rows_entity:
  "f \<in> set (grouped_rows ts gen k G) \<Longrightarrow> f_entity_id f \<in> set (map fst G)"
proof (induction G arbitrary: k)
  case Nil
  then show ?case by simp
next
  case (Cons g G)
  obtain eid fl where g: "g = (eid, fl)" by (cases g)
  from Cons.prems g consider "f \<in> set (frag_rows eid ts gen k fl)"
    | "f \<in> set (grouped_rows ts gen (k + length fl) G)" by auto
  then show ?case
  proof cases
    case 1
    then show ?thesis using g by (simp add: frag_rows_entity)
  next
    case 2
    from Cons.IH [OF 2] show ?thesis by simp
  qed
qed

lemma filter_frag_rows_same [simp]:
  "filter (\<lambda>f. f_entity_id f = eid) (frag_rows eid ts gen k fl) = frag_rows eid ts gen k fl"
  by (induction fl arbitrary: k) auto

lemma filter_frag_rows_other [simp]:
  "eid' \<noteq> eid \<Longrightarrow> filter (\<lambda>f. f_entity_id f = eid') (frag_rows eid ts gen k fl) = []"
  by (induction fl arbitrary: k) auto

lemma filter_grouped_rows_none:
  "eid \<notin> set (map fst G) \<Longrightarrow> filter (\<lambda>f. f_entity_id f = eid) (grouped_rows ts gen k G) = []"
  by (auto simp: filter_empty_conv dest: grouped_rows_entity)

lemma count_grouped_rows:
  "distinct (map fst G) \<Longrightarrow> (eid, fl) \<in> set G \<Longrightarrow>
     length (filter (\<lambda>f. f_entity_id f = eid) (grouped_rows ts gen k G)) = length fl"
proof (induction G arbitrary: k)
  case Nil
  then show ?case by simp
next
  case (Cons g G)
  obtain eid' fl' where g: "g = (eid', fl')" by (cases g)
  show ?case
  proof (cases "eid' = eid")
    case True
    with Cons.prems g have "fl' = fl" and "eid \<notin> set (map fst G)"
      by (auto simp: image_iff)
    then show ?thesis using True g
      by (simp add: filter_grouped_rows_none)
  next
    case False
    with Cons.prems g have "(eid, fl) \<in> set G" and "distinct (map fst G)" by auto
    then show ?thesis using False g Cons.IH by simp
  qed
qed

lemma length_grouped_rows:
  "length (grouped_rows ts gen k G) = sum_list (map (\<lambda>g. length (snd g)) G)"
  by (induction G arbitrary: k) auto

lemma setdefault_append_keys:
  "map fst (setdefault_append k v g) = (if k \<in> set (map fst g) then map fst g else map fst g @ [k])"
  by (induction g) force+

lemma group_fragments_keys:
  "group_fragments frs m g0 = Inr g \<Longrightarrow>
     set (map fst g) = set (map fst g0) \<union> set (map (\<lambda>(idx, info). m_entity_id info) m) \<and>
     (distinct (map fst g0) \<longrightarrow> distinct (map fst g))"
proof (induction m arbitrary: g0)
  case Nil
  then show ?case by simp
next
  case (Cons a m)
  obtain idx info where a: "a = (idx, info)" by (cases a)
  show ?case
  proof (cases "py_index frs idx")
    case (Inl err)
    with Cons.prems a show ?thesis by (simp add: Let_def)
  next
    case (Inr frag)
    with Cons.prems a obtain x where
      rec: "group_fragments frs m (setdefault_append (m_entity_id info) x g0) = Inr g"
      by (simp add: Let_def)
    from Cons.IH [OF rec] show ?thesis
      by (auto simp: a setdefault_append_keys split: if_splits)
  qed
qed

lemma save_mapping_eq:
  assumes "save_mapping s m frs gen ts = Inr s'"
  obtains G where
    "group_fragments frs m [] = Inr G"
    "set (map fst G) = set (mapping_entity_ids m)" "distinct (map fst G)"
    "entities s' = filter (\<lambda>e. e_entity_id e \<notin> set (mapping_entity_ids m)) (entities s) @
                   map (entity_of_group ts) G"
    "fragments s' = filter (\<lambda>f. f_entity_id f \<notin> set (mapping_entity_ids m)) (fragments s) @
                   grouped_rows ts gen 0 G"
    "erasures s' = erasures s"
proof -
  from assms obtain G where G: "group_fragments frs m [] = Inr G"
    and ins: "insert_grouped ts gen 0 G (clear_entities (mapping_entity_ids m) s) = Inr s'"
    by (auto simp: save_mapping_def Let_def split: sum.splits)
  from group_fragments_keys [OF G]
  have k: "set (map fst G) = set (mapping_entity_ids m)" "distinct (map fst G)"
    by (auto simp: mapping_entity_ids_def)
  from insert_grouped_eq [OF ins] have
    "entities s' = filter (\<lambda>e. e_entity_id e \<notin> set (mapping_entity_ids m)) (entities s) @
                   map (entity_of_group ts) G"
    "fragments s' = filter (\<lambda>f. f_entity_id f \<notin> set (mapping_entity_ids m)) (fragments s) @
                   grouped_rows ts gen 0 G"
    "erasures s' = erasures s"
    by (simp_all add: clear_entities_eq)
  with G k that show thesis by blast
qed

lemma count_inv_iff:
  "count_inv s = (\<forall>e\<in>set (entities s). e_fragment_count e = count_fragments s (e_entity_id e))"
  by (simp add: count_inv_def list_all_iff)

lemma count_inv_save_mapping:
  assumes inv: "count_inv s" and sv: "save_mapping s m frs gen ts = Inr s'"
  shows "count_inv s'"
proof -
  from sv obtain G where
    keys: "set (map fst G) = set (mapping_entity_ids m)" and dist: "distinct (map fst G)" and
    ents: "entities s' = filter (\<lambda>e. e_entity_id e \<notin> set (mapping_entity_ids m)) (entities s) @
                   map (entity_of_group ts) G" and
    frags: "fragments s' = filter (\<lambda>f. f_entity_id f \<notin> set (mapping_entity_ids m)) (fragments s) @
                   grouped_rows ts gen 0 G"
    by (rule save_mapping_eq)
  show ?thesis unfolding count_inv_iff
  proof
    fix e assume "e \<in> set (entities s')"
    with ents consider
      (old) "e \<in> set (entities s)" "e_entity_id e \<notin> set (mapping_entity_ids m)"
      | (new) g where "g \<in> set G" "e = entity_of_group ts g"
      by auto
    then show "e_fragment_count e = count_fragments s' (e_entity_id e)"
    proof cases
      case old
      from old(2) keys have "e_entity_id e \<notin> set (map fst G)" by simp
      then have none: "filter (\<lambda>f. f_entity_id f = e_entity_id e) (grouped_rows ts gen 0 G) = []"
        by (rule filter_grouped_rows_none)
      have same: "filter (\<lambda>f. f_entity_id f \<notin> set (mapping_entity_ids m) \<and> f_entity_id f = e_entity_id e)
              (fragments s) = filter (\<lambda>f. f_entity_id f = e_entity_id e) (fragments s)"
        by (rule filter_cong) (use old(2) in auto)
      from inv old(1) have "e_fragment_count e = count_fragments s (e_entity_id e)"
        by (simp add: count_inv_iff)
      then show ?thesis
        by (simp add: count_fragments_def frags none same)
    next
      case new
      obtain eid fl where g: "g = (eid, fl)" by (cases g)
      from new(1) g have "eid \<in> fst ` set G" by force
      with keys have "eid \<in> set (mapping_entity_ids m)" by simp
      then have gone: "filter (\<lambda>f. f_entity_id f \<notin> set (mapping_entity_ids m) \<and> f_entity_id f = eid)
              (fragments s) = []"
        by (auto simp: filter_empty_conv)
      from dist new(1) g
      have "length (filter (\<lambda>f. f_entity_id f = eid) (grouped_rows ts gen 0 G)) = length fl"
        by (simp add: count_grouped_rows)
      then show ?thesis
        by (simp add: count_fragments_def frags gone new(2) g entity_of_group_def)
    qed
  qed
qed

lemma insert_frag_list_ids:
  "insert_frag_list eid ts gen k fl s = Inr s' \<Longrightarrow> distinct (map f_frag_id (fragments s)) \<Longrightarrow>
     distinct (map f_frag_id (fragments s'))"
proof (induction fl arbitrary: s k)
  case Nil
  then show ?case by simp
next
  case (Cons a fl)
  from Cons.prems(1) obtain s1 where
    s1: "insert_fragment \<lparr>f_frag_id = eid @ ''-'' @ gen k, f_entity_id = eid,
              f_frag_type = g_type a, f_value = g_value a, f_source = g_source a,
              f_confidence = g_confidence a, f_created_at = ts\<rparr> s = Inr s1" and
    rec: "insert_frag_list eid ts gen (Suc k) fl s1 = Inr s'"
    by (auto split: sum.splits)
  from s1 Cons.prems(2) have "distinct (map f_frag_id (fragments s1))"
    by (auto simp: insert_fragment_def split: if_splits)
  with Cons.IH [OF rec] show ?case .
qed

lemma insert_grouped_pk:
  "insert_grouped ts gen k G s = Inr s' \<Longrightarrow> pk_ok s \<Longrightarrow> pk_ok s'"
proof (induction G arbitrary: s k)
  case Nil
  then show ?case by simp
next
  case (Cons g G)
  obtain eid fl where g: "g = (eid, fl)" by (cases g)
  from Cons.prems(1) g obtain s1 s2 where
    s1: "insert_entity (entity_of_group ts (eid, fl)) s = Inr s1" and
    s2: "insert_frag_list eid ts gen k fl s1 = Inr s2" and
    s3: "insert_grouped ts gen (k + length fl) G s2 = Inr s'"
    by (auto simp: Let_def entity_of_group_def split: if_splits sum.splits)
  from s1 Cons.prems(2) have p1: "pk_ok s1"
    by (auto simp: insert_entity_def pk_ok_def split: if_splits)
  from insert_frag_list_ids [OF s2] insert_frag_list_eq [OF s2] p1 have "pk_ok s2"
    by (simp add: pk_ok_def)
  with Cons.IH [OF s3] show ?case .
qed

lemma pk_ok_save_mapping:
  assumes "pk_ok s" and sv: "save_mapping s m frs gen ts = Inr s'"
  shows "pk_ok s'"
proof -
  from sv obtain G where
    ins: "insert_grouped ts gen 0 G (clear_entities (mapping_entity_ids m) s) = Inr s'"
    by (auto simp: save_mapping_def Let_def split: sum.splits)
  from assms(1) have "pk_ok (clear_entities (mapping_entity_ids m) s)"
    by (simp add: clear_entities_eq pk_ok_def distinct_map_filter)
  with insert_grouped_pk [OF ins] show ?thesis .
qed

lemma find_frag_unique:
  assumes "distinct (map f_frag_id frs)" "find (\<lambda>f. f_frag_id f = fid) frs = Some r"
    "f \<in> set frs" "f_frag_id f = fid"
  shows "f = r"
proof -
  from assms(2) have "r \<in> set frs" "f_frag_id r = fid"
    by (auto simp: find_Some_iff)
  with assms(1,3,4) show ?thesis
    by (auto simp: distinct_map inj_on_def)
qed

lemma filter_other_entity:
  assumes "distinct (map f_frag_id frs)" "find (\<lambda>f. f_frag_id f = fid) frs = Some r"
    "eid \<noteq> f_entity_id r"
  shows "filter (\<lambda>f. f_entity_id f = eid) (filter (\<lambda>f. f_frag_id f \<noteq> fid) frs) =
         filter (\<lambda>f. f_entity_id f = eid) frs"
proof -
  have "\<And>f. f \<in> set frs \<Longrightarrow> (f_frag_id f \<noteq> fid \<and> f_entity_id f = eid) = (f_entity_id f = eid)"
    using find_frag_unique [OF assms(1,2)] assms(3) by blast
  then show ?thesis
    unfolding filter_filter by (intro filter_cong refl) auto
qed

lemma delete_fragment_not_found:
  "find (\<lambda>f. f_frag_id f = frag_id) (fragments s) = None \<Longrightarrow>
     delete_fragment s frag_id requested_by reason uuid ts = (s, False, ''Fragment not found'')"
  by (simp add: delete_fragment_def)

lemma delete_fragment_last:
  assumes "find (\<lambda>f. f_frag_id f = frag_id) (fragments s) = Some r"
    and "filter (\<lambda>f. f_entity_id f = f_entity_id r)
           (filter (\<lambda>f. f_frag_id f \<noteq> frag_id) (fragments s)) = []"
    and "''E-'' @ uuid \<notin> set (map er_erasure_id (erasures s))"
  shows "delete_fragment s frag_id requested_by reason uuid ts =
     (delete_fragment_cascade s frag_id (f_entity_id r)
        \<lparr>er_erasure_id = ''E-'' @ uuid, er_entity_id = f_entity_id r,
         er_fragments_deleted = 1, er_requested_by = requested_by,
         er_reason = reason, er_timestamp = ts\<rparr>, True, f_entity_id r)"
proof -
  have "insert_erasure \<lparr>er_erasure_id = ''E-'' @ uuid, er_entity_id = f_entity_id r,
         er_fragments_deleted = 1, er_requested_by = requested_by,
         er_reason = reason, er_timestamp = ts\<rparr>
       (delete_entity_row (f_entity_id r)
          (s\<lparr>fragments := filter (\<lambda>f. f_frag_id f \<noteq> frag_id) (fragments s)\<rparr>)) =
     Inr (delete_fragment_cascade s frag_id (f_entity_id r)
        \<lparr>er_erasure_id = ''E-'' @ uuid, er_entity_id = f_entity_id r,
         er_fragments_deleted = 1, er_requested_by = requested_by,
         er_reason = reason, er_timestamp = ts\<rparr>)"
    using assms(3)
    by (simp add: insert_erasure_def delete_entity_row_def delete_fragment_cascade_def)
  then show ?thesis using assms(1,2)
    by (simp add: delete_fragment_def Let_def count_fragments_def del: filter_filter)
qed

lemma delete_fragment_last_collision:
  assumes "find (\<lambda>f. f_frag_id f = frag_id) (fragments s) = Some r"
    and "filter (\<lambda>f. f_entity_id f = f_entity_id r)
           (filter (\<lambda>f. f_frag_id f \<noteq> frag_id) (fragments s)) = []"
    and "''E-'' @ uuid \<in> set (map er_erasure_id (erasures s))"
  shows "fst (delete_fragment s frag_id requested_by reason uuid ts) = s"
proof -
  have "insert_erasure \<lparr>er_erasure_id = ''E-'' @ uuid, er_entity_id = f_entity_id r,
         er_fragments_deleted = 1, er_requested_by = requested_by,
         er_reason = reason, er_timestamp = ts\<rparr>
       (delete_entity_row (f_entity_id r)
          (s\<lparr>fragments := filter (\<lambda>f. f_frag_id f \<noteq> frag_id) (fragments s)\<rparr>)) =
     Inl IntegrityError"
    using assms(3)
    by (simp add: insert_erasure_def delete_entity_row_def)
  then show ?thesis using assms(1,2)
    by (simp add: delete_fragment_def Let_def count_fragments_def del: filter_filter)
qed

lemma delete_fragment_more:
  assumes "find (\<lambda>f. f_frag_id f = frag_id) (fragments s) = Some r"
    and "filter (\<lambda>f. f_entity_id f = f_entity_id r)
           (filter (\<lambda>f. f_frag_id f \<noteq> frag_id) (fragments s)) \<noteq> []"
  shows "delete_fragment s frag_id requested_by reason uuid ts =
     (delete_fragment_update s frag_id (f_entity_id r) ts, True, f_entity_id r)"
  using assms
  by (simp add: delete_fragment_def Let_def count_fragments_def delete_fragment_update_def
      del: filter_filter)

lemma delete_fragment_cases:
  obtains
    (unchanged) "fst (delete_fragment s frag_id requested_by reason uuid ts) = s"
  | (cascade) r er where "find (\<lambda>f. f_frag_id f = frag_id) (fragments s) = Some r"
      "er_erasure_id er \<notin> set (map er_erasure_id (erasures s))"
      "fst (delete_fragment s frag_id requested_by reason uuid ts) =
         delete_fragment_cascade s frag_id (f_entity_id r) er"
  | (update) r where "find (\<lambda>f. f_frag_id f = frag_id) (fragments s) = Some r"
      "fst (delete_fragment s frag_id requested_by reason uuid ts) =
         delete_fragment_update s frag_id (f_entity_id r) ts"
proof (cases "find (\<lambda>f. f_frag_id f = frag_id) (fragments s)")
  case None
  then show ?thesis using unchanged by (simp add: delete_fragment_not_found)
next
  case (Some r)
  show ?thesis
  proof (cases "filter (\<lambda>f. f_entity_id f = f_entity_id r)
           (filter (\<lambda>f. f_frag_id f \<noteq> frag_id) (fragments s)) = []")
    case True
    show ?thesis
    proof (cases "''E-'' @ uuid \<in> set (map er_erasure_id (erasures s))")
      case True
      with Some \<open>filter _ _ = []\<close> show ?thesis
        using unchanged delete_fragment_last_collision by blast
    next
      case False
      from delete_fragment_last [OF Some True False, of requested_by reason ts]
      show ?thesis using cascade [OF Some, of "\<lparr>er_erasure_id = ''E-'' @ uuid, er_entity_id = f_entity_id r,
         er_fragments_deleted = 1, er_requested_by = requested_by,
         er_reason = reason, er_timestamp = ts\<rparr>"] False by simp
    qed
  next
    case False
    from delete_fragment_more [OF Some False, of requested_by reason uuid ts]
    show ?thesis using update [OF Some] by simp
  qed
qed

lemma count_inv_delete_fragment:
  assumes pk: "pk_ok s" and inv: "count_inv s"
  shows "count_inv (fst (delete_fragment s frag_id requested_by reason uuid ts))"
proof (cases rule: delete_fragment_cases [where s = s and frag_id = frag_id and requested_by = requested_by and reason = reason and uuid = uuid and ts = ts])
  case unchanged
  with inv show ?thesis by simp
next
  case (cascade r er)
  from pk have d: "distinct (map f_frag_id (fragments s))" by (simp add: pk_ok_def)
  have "count_inv (delete_fragment_cascade s frag_id (f_entity_id r) er)"
    unfolding count_inv_iff
  proof
    fix e assume "e \<in> set (entities (delete_fragment_cascade s frag_id (f_entity_id r) er))"
    then have e: "e \<in> set (entities s)" "e_entity_id e \<noteq> f_entity_id r"
      by (auto simp: delete_fragment_cascade_def)
    from inv e(1) have "e_fragment_count e = count_fragments s (e_entity_id e)"
      by (simp add: count_inv_iff)
    with filter_other_entity [OF d cascade(1) e(2)]
    show "e_fragment_count e =
          count_fragments (delete_fragment_cascade s frag_id (f_entity_id r) er) (e_entity_id e)"
      by (simp add: count_fragments_def delete_fragment_cascade_def del: filter_filter)
  qed
  with cascade(3) show ?thesis by simp
next
  case (update r)
  from pk have d: "distinct (map f_frag_id (fragments s))" by (simp add: pk_ok_def)
  have "count_inv (delete_fragment_update s frag_id (f_entity_id r) ts)"
    unfolding count_inv_iff
  proof
    fix e' assume "e' \<in> set (entities (delete_fragment_update s frag_id (f_entity_id r) ts))"
    then obtain e where e: "e \<in> set (entities s)" and
      e': "e' = (if e_entity_id e = f_entity_id r
                then e\<lparr>e_fragment_count :=
                         length (filter (\<lambda>f. f_entity_id f = f_entity_id r)
                                   (filter (\<lambda>f. f_frag_id f \<noteq> frag_id) (fragments s))),
                       e_updated_at := ts\<rparr>
                else e)"
      by (auto simp: delete_fragment_update_def)
    show "e_fragment_count e' =
          count_fragments (delete_fragment_update s frag_id (f_entity_id r) ts) (e_entity_id e')"
    proof (cases "e_entity_id e = f_entity_id r")
      case True
      with e' show ?thesis
        by (simp add: count_fragments_def delete_fragment_update_def del: filter_filter)
    next
      case False
      from inv e have "e_fragment_count e = count_fragments s (e_entity_id e)"
        by (simp add: count_inv_iff)
      with filter_other_entity [OF d update(1) False] False e' show ?thesis
        by (simp add: count_fragments_def delete_fragment_update_def del: filter_filter)
    qed
  qed
  with update(2) show ?thesis by simp
qed

lemma entity_ids_update:
  "map e_entity_id (map (\<lambda>e. if P e then e\<lparr>e_fragment_count := n, e_updated_at := ts\<rparr> else e) es) =
   map e_entity_id es"
  by (induction es) auto

lemma pk_ok_delete_fragment:
  assumes pk: "pk_ok s"
  shows "pk_ok (fst (delete_fragment s frag_id requested_by reason uuid ts))"
proof (cases rule: delete_fragment_cases [where s = s and frag_id = frag_id and requested_by = requested_by and reason = reason and uuid = uuid and ts = ts])
  case unchanged
  with pk show ?thesis by simp
next
  case (cascade r er)
  from pk cascade(2) have "pk_ok (delete_fragment_cascade s frag_id (f_entity_id r) er)"
    by (simp add: pk_ok_def delete_fragment_cascade_def distinct_map_filter)
  with cascade(3) show ?thesis by simp
next
  case (update r)
  from pk have "pk_ok (delete_fragment_update s frag_id (f_entity_id r) ts)"
    by (simp add: pk_ok_def delete_fragment_update_def distinct_map_filter entity_ids_update
        del: map_map)
  with update(2) show ?thesis by simp
qed

lemma erase_entity_cases:
  obtains
    (unchanged) "fst (erase_entity s entity_id requested_by reason uuid ts) = s"
  | (erased) er where "er_erasure_id er \<notin> set (map er_erasure_id (erasures s))"
      "fst (erase_entity s entity_id requested_by reason uuid ts) = erase_entity_result s entity_id er"
proof (cases "length (filter (\<lambda>e. e_entity_id e = entity_id) (entities s)) = 0")
  case True
  then show ?thesis using unchanged by (simp add: erase_entity_def)
next
  case False
  show ?thesis
  proof (cases "''ER-'' @ uuid \<in> set (map er_erasure_id (erasures s))")
    case True
    with False have "fst (erase_entity s entity_id requested_by reason uuid ts) = s"
      by (simp add: erase_entity_def Let_def insert_erasure_def delete_entity_row_def
          delete_fragments_of_def)
    then show ?thesis by (rule unchanged)
  next
    case fresh: False
    let ?er = "\<lparr>er_erasure_id = ''ER-'' @ uuid, er_entity_id = entity_id,
                       er_fragments_deleted = count_fragments s entity_id, er_requested_by = requested_by,
                       er_reason = reason, er_timestamp = ts\<rparr>"
    from False fresh have "fst (erase_entity s entity_id requested_by reason uuid ts) =
        erase_entity_result s entity_id ?er"
      by (simp add: erase_entity_def Let_def insert_erasure_def delete_entity_row_def
          delete_fragments_of_def erase_entity_result_def)
    with fresh show ?thesis using erased [of ?er] by simp
  qed
qed

lemma count_inv_erase_entity:
  assumes inv: "count_inv s"
  shows "count_inv (fst (erase_entity s entity_id requested_by reason uuid ts))"
proof (cases rule: erase_entity_cases [where s = s and entity_id = entity_id and requested_by = requested_by and reason = reason and uuid = uuid and ts = ts])
  case unchanged
  with inv show ?thesis by simp
next
  case (erased er)
  have "count_inv (erase_entity_result s entity_id er)"
    unfolding count_inv_iff
  proof
    fix e assume "e \<in> set (entities (erase_entity_result s entity_id er))"
    then have e: "e \<in> set (entities s)" "e_entity_id e \<noteq> entity_id"
      by (auto simp: erase_entity_result_def)
    have keep: "filter (\<lambda>f. f_entity_id f \<noteq> entity_id \<and> f_entity_id f = e_entity_id e) (fragments s)
      = filter (\<lambda>f. f_entity_id f = e_entity_id e) (fragments s)"
      by (rule filter_cong) (use e(2) in auto)
    from inv e(1) have "e_fragment_count e = count_fragments s (e_entity_id e)"
      by (simp add: count_inv_iff)
    then show "e_fragment_count e = count_fragments (erase_entity_result s entity_id er) (e_entity_id e)"
      by (simp add: count_fragments_def erase_entity_result_def keep)
  qed
  with erased(2) show ?thesis by simp
qed

lemma pk_ok_erase_entity:
  assumes pk: "pk_ok s"
  shows "pk_ok (fst (erase_entity s entity_id requested_by reason uuid ts))"
proof (cases rule: erase_entity_cases [where s = s and entity_id = entity_id and requested_by = requested_by and reason = reason and uuid = uuid and ts = ts])
  case unchanged
  with pk show ?thesis by simp
next
  case (erased er)
  from pk erased(1) have "pk_ok (erase_entity_result s entity_id er)"
    by (simp add: pk_ok_def erase_entity_result_def distinct_map_filter)
  with erased(2) show ?thesis by simp
qed

lemma store_inv_step:
  "pk_ok s \<and> count_inv s \<Longrightarrow> pk_ok (apply_operation s op) \<and> count_inv (apply_operation s op)"
proof (cases op)
  case (SaveMapping m frs gen ts)
  assume "pk_ok s \<and> count_inv s"
  then show ?thesis using SaveMapping
    by (auto split: sum.splits intro: pk_ok_save_mapping count_inv_save_mapping)
next
  case (DeleteFragment a b c d e)
  assume "pk_ok s \<and> count_inv s"
  then show ?thesis using DeleteFragment
    by (simp add: pk_ok_delete_fragment count_inv_delete_fragment)
next
  case (EraseEntity a b c d e)
  assume "pk_ok s \<and> count_inv s"
  then show ?thesis using EraseEntity
    by (simp add: pk_ok_erase_entity count_inv_erase_entity)
qed

lemma store_inv_init: "pk_ok init_db \<and> count_inv init_db"
  by (simp add: pk_ok_def count_inv_def init_db_def)

lemma store_inv_reachable:
  "pk_ok (foldl apply_operation init_db ops) \<and> count_inv (foldl apply_operation init_db ops)"
proof (induction ops rule: rev_induct)
  case Nil
  show ?case using store_inv_init by simp
next
  case (snoc op ops)
  then show ?case using store_inv_step by simp
qed

section \<open>Claims about the store\<close>

text \<open>
  Claim C1 (count invariant).  Every mutating operation of the store (\<^verbatim>\<open>save_mapping\<close>,
  \<^verbatim>\<open>delete_fragment\<close>, \<^verbatim>\<open>erase_entity\<close>, each taken with the store it commits) keeps,
  for every entity row, \<open>fragment_count\<close> equal to the number of fragment rows that
  reference the entity: the property is preserved by each operation on a store that obeys
  the primary keys, and so holds after every sequence of operations on a new database.
\<close>

theorem count_invariant:
  "(pk_ok s \<and> count_inv s \<longrightarrow> count_inv (apply_operation s op)) \<and>
   count_inv (foldl apply_operation init_db ops)"
  using store_inv_step [of s op] store_inv_reachable [of ops] by blast

text \<open>
  Claim C3 (atomic full erasure).  For an entity in the store with \<open>N\<close> fragment rows,
  \<^verbatim>\<open>erase_entity\<close> (whose fresh erasure id is not yet in use) deletes these \<open>N\<close> rows and
  the entity row, appends one erasure record with \<open>fragments_deleted = N\<close> and returns
  \<open>(True, N)\<close>; for an id that is not in the store it changes nothing and returns
  \<open>(False, 0)\<close>.
\<close>

theorem erase_entity_atomic:
  "(entity_id \<in> set (map e_entity_id (entities s)) \<and>
    ''ER-'' @ uuid \<notin> set (map er_erasure_id (erasures s)) \<longrightarrow>
      erase_entity s entity_id requested_by reason uuid ts =
        (\<lparr>entities = filter (\<lambda>e. e_entity_id e \<noteq> entity_id) (entities s),
          fragments = filter (\<lambda>f. f_entity_id f \<noteq> entity_id) (fragments s),
          erasures = erasures s @
            [\<lparr>er_erasure_id = ''ER-'' @ uuid, er_entity_id = entity_id,
              er_fragments_deleted = count_fragments s entity_id,
              er_requested_by = requested_by, er_reason = reason, er_timestamp = ts\<rparr>]\<rparr>,
         True, count_fragments s entity_id) \<and>
      length (filter (\<lambda>f. f_entity_id f \<noteq> entity_id) (fragments s)) + count_fragments s entity_id
        = length (fragments s)) \<and>
   (entity_id \<notin> set (map e_entity_id (entities s)) \<longrightarrow>
      erase_entity s entity_id requested_by reason uuid ts = (s, False, 0))"
proof (intro conjI impI)
  assume h: "entity_id \<in> set (map e_entity_id (entities s)) \<and>
    ''ER-'' @ uuid \<notin> set (map er_erasure_id (erasures s))"
  then have ex: "length (filter (\<lambda>e. e_entity_id e = entity_id) (entities s)) \<noteq> 0"
    by (auto simp: filter_empty_conv)
  from h have fresh: "''ER-'' @ uuid \<notin> er_erasure_id ` set (erasures s)" by simp
  show "erase_entity s entity_id requested_by reason uuid ts =
        (\<lparr>entities = filter (\<lambda>e. e_entity_id e \<noteq> entity_id) (entities s),
          fragments = filter (\<lambda>f. f_entity_id f \<noteq> entity_id) (fragments s),
          erasures = erasures s @
            [\<lparr>er_erasure_id = ''ER-'' @ uuid, er_entity_id = entity_id,
              er_fragments_deleted = count_fragments s entity_id,
              er_requested_by = requested_by, er_reason = reason, er_timestamp = ts\<rparr>]\<rparr>,
         True, count_fragments s entity_id)"
    using ex fresh
    by (simp add: erase_entity_def Let_def insert_erasure_def delete_entity_row_def
        delete_fragments_of_def)
  show "length (filter (\<lambda>f. f_entity_id f \<noteq> entity_id) (fragments s)) + count_fragments s entity_id
        = length (fragments s)"
    using sum_length_filter_compl [of "\<lambda>f. f_entity_id f = entity_id" "fragments s"]
    by (simp add: count_fragments_def)
next
  assume "entity_id \<notin> set (map e_entity_id (entities s))"
  then have "filter (\<lambda>e. e_entity_id e = entity_id) (entities s) = []"
    by (auto simp: filter_empty_conv)
  then show "erase_entity s entity_id requested_by reason uuid ts = (s, False, 0)"
    by (simp add: erase_entity_def)
qed

theorem erase_entity_atomic_witness:
  "erase_entity ex_store ''E-000001'' ''system'' ''GDPR Article 17'' ''u1'' 9 =
     (\<lparr>entities = [\<lparr>e_entity_id = ''E-000002'', e_fragment_count = 1, e_confidence = 1,
                   e_created_at = 5, e_updated_at = 7\<rparr>],
       fragments = [\<lparr>f_frag_id = ''E-000002-c'', f_entity_id = ''E-000002'', f_frag_type = ''EMAIL_ADDRESS'',
                    f_value = ''bob@example.com'', f_source = ''b.txt'', f_confidence = 1, f_created_at = 5\<rparr>],
       erasures = [\<lparr>er_erasure_id = ''ER-u1'', er_entity_id = ''E-000001'', er_fragments_deleted = 2,
                    er_requested_by = ''system'', er_reason = ''GDPR Article 17'', er_timestamp = 9\<rparr>]\<rparr>,
      True, 2) \<and>
   erase_entity ex_store ''E-000009'' ''system'' ''GDPR Article 17'' ''u1'' 9 = (ex_store, False, 0)"
  using erase_entity_atomic [of "''E-000001''" ex_store "''u1''" "''system''" "''GDPR Article 17''" 9]
        erase_entity_atomic [of "''E-000009''" ex_store "''u1''" "''system''" "''GDPR Article 17''" 9]
  by (simp add: ex_store_def count_fragments_def)

lemma ex_group: "group_fragments ex_frags ex_mapping [] =
   Inr [(''E-000001'', [\<lparr>g_type = ''EMAIL_ADDRESS'', g_value = ''alice@example.com'', g_source = ''a.txt'', g_confidence = 1\<rparr>,
                        \<lparr>g_type = ''EMAIL_ADDRESS'', g_value = ''alice@example.com'', g_source = ''b.txt'', g_confidence = 1\<rparr>]),
        (''E-000002'', [\<lparr>g_type = ''EMAIL_ADDRESS'', g_value = ''bob@example.com'', g_source = ''b.txt'', g_confidence = 1\<rparr>])]"
  by (simp add: ex_frags_def ex_mapping_def py_index_def dict_get_def)

lemma ex_ids: "mapping_entity_ids ex_mapping = [''E-000001'', ''E-000002'']"
  by (simp add: mapping_entity_ids_def ex_mapping_def)

lemma ex_save_first: "save_mapping init_db ex_mapping ex_frags ex_gen ts = Inr (ex_saved ts)"
  by (simp add: save_mapping_def ex_group ex_ids clear_entities_eq init_db_def ex_saved_def
      insert_entity_def insert_fragment_def ex_gen_def)

lemma ex_save_again: "save_mapping (ex_saved ts) ex_mapping ex_frags ex_gen ts' = Inr (ex_saved ts')"
  by (simp add: save_mapping_def ex_group ex_ids clear_entities_eq ex_saved_def
      insert_entity_def insert_fragment_def ex_gen_def)

lemma count_rows_indep:
  "length (filter (\<lambda>f. f_entity_id f = eid) (grouped_rows ts gen k G)) =
   length (filter (\<lambda>f. f_entity_id f = eid) (grouped_rows ts' gen' k' G))"
proof (induction G arbitrary: k k')
  case Nil
  show ?case by simp
next
  case (Cons g G)
  obtain e fl where g: "g = (e, fl)" by (cases g)
  show ?case using Cons.IH [of "k + length fl" "k' + length fl"]
    by (cases "e = eid") (simp_all add: g)
qed

text \<open>
  Claim C2 (idempotent re-scan).  Saving the same mapping and fragments a second time
  leaves the entity ids, every entity's \<open>fragment_count\<close>, the number of stored
  fragment rows and the number of rows of every entity as the first save left them.
\<close>

theorem save_mapping_idempotent:
  assumes first: "save_mapping s m frs gen1 ts1 = Inr s1"
    and second: "save_mapping s1 m frs gen2 ts2 = Inr s2"
  shows "map e_entity_id (entities s2) = map e_entity_id (entities s1) \<and>
         map e_fragment_count (entities s2) = map e_fragment_count (entities s1) \<and>
         length (fragments s2) = length (fragments s1) \<and>
         count_fragments s2 eid = count_fragments s1 eid"
proof -
  let ?ids = "set (mapping_entity_ids m)"
  from first obtain G where
    G: "group_fragments frs m [] = Inr G" and keys: "set (map fst G) = ?ids" and
    e1: "entities s1 = filter (\<lambda>e. e_entity_id e \<notin> ?ids) (entities s) @ map (entity_of_group ts1) G" and
    f1: "fragments s1 = filter (\<lambda>f. f_entity_id f \<notin> ?ids) (fragments s) @ grouped_rows ts1 gen1 0 G"
    by (rule save_mapping_eq)
  from second obtain G' where
    G': "group_fragments frs m [] = Inr G'" and
    e2: "entities s2 = filter (\<lambda>e. e_entity_id e \<notin> ?ids) (entities s1) @ map (entity_of_group ts2) G'" and
    f2: "fragments s2 = filter (\<lambda>f. f_entity_id f \<notin> ?ids) (fragments s1) @ grouped_rows ts2 gen2 0 G'"
    by (rule save_mapping_eq)
  from G G' have same: "G' = G" by simp
  have ge: "filter (\<lambda>e. e_entity_id e \<notin> ?ids) (map (entity_of_group ts1) G) = []"
    using keys by (auto simp: filter_empty_conv entity_of_group_def)
  have gf: "filter (\<lambda>f. f_entity_id f \<notin> ?ids) (grouped_rows ts1 gen1 0 G) = []"
    using keys grouped_rows_entity [of _ ts1 gen1 0 G] by (auto simp: filter_empty_conv)
  have E2: "entities s2 = filter (\<lambda>e. e_entity_id e \<notin> ?ids) (entities s) @ map (entity_of_group ts2) G"
    by (simp add: e2 e1 ge same)
  have F2: "fragments s2 = filter (\<lambda>f. f_entity_id f \<notin> ?ids) (fragments s) @ grouped_rows ts2 gen2 0 G"
    by (simp add: f2 f1 gf same)
  have "map e_entity_id (entities s2) = map e_entity_id (entities s1)"
    by (simp add: E2 e1 entity_of_group_def)
  moreover have "map e_fragment_count (entities s2) = map e_fragment_count (entities s1)"
    by (simp add: E2 e1 entity_of_group_def)
  moreover have "length (fragments s2) = length (fragments s1)"
    by (simp add: F2 f1 length_grouped_rows)
  moreover have "count_fragments s2 eid = count_fragments s1 eid"
    using count_rows_indep [of eid ts2 gen2 0 G ts1 gen1 0]
    by (simp add: count_fragments_def F2 f1)
  ultimately show ?thesis by simp
qed

theorem save_mapping_idempotent_witness:
  "save_mapping init_db ex_mapping ex_frags ex_gen 5 = Inr (ex_saved 5) \<and>
   save_mapping (ex_saved 5) ex_mapping ex_frags ex_gen 8 = Inr (ex_saved 8) \<and>
   map e_fragment_count (entities (ex_saved 8)) = [2, 1] \<and>
   map e_fragment_count (entities (ex_saved 5)) = [2, 1] \<and>
   length (fragments (ex_saved 8)) = 3 \<and> length (fragments (ex_saved 5)) = 3 \<and>
   count_fragments (ex_saved 8) ''E-000001'' = count_fragments (ex_saved 5) ''E-000001''"
  using save_mapping_idempotent [OF ex_save_first ex_save_again, of 5 8 "''E-000001''"]
  by (simp add: ex_save_first ex_save_again) (simp add: ex_saved_def)

lemma entity_of_group_sel:
  "e_entity_id (entity_of_group ts g) = fst g"
  "e_created_at (entity_of_group ts g) = ts"
  "e_updated_at (entity_of_group ts g) = ts"
  by (simp_all add: entity_of_group_def split_beta)

lemma filter_entity_of_group:
  "distinct (map fst G) \<Longrightarrow> eid \<in> set (map fst G) \<Longrightarrow>
     map (\<lambda>e. (e_created_at e, e_updated_at e))
         (filter (\<lambda>e. e_entity_id e = eid) (map (entity_of_group ts) G)) = [(ts, ts)]"
proof (induction G)
  case Nil
  then show ?case by simp
next
  case (Cons g G)
  show ?case
  proof (cases "fst g = eid")
    case True
    with Cons.prems(1) have "eid \<notin> set (map fst G)" by simp
    then have "filter (\<lambda>e. e_entity_id e = eid) (map (entity_of_group ts) G) = []"
      by (auto simp: filter_empty_conv entity_of_group_sel)
    with True show ?thesis by (simp add: entity_of_group_sel)
  next
    case False
    with Cons.prems have "distinct (map fst G)" "eid \<in> set (map fst G)" by auto
    with Cons.IH False show ?thesis by (simp add: entity_of_group_sel)
  qed
qed

text \<open>
  Claim C7 (\<open>created_at\<close> is fixed at the first insert) fails: the second save of the
  same mapping, at instant 8, replaces the rows created at instant 5, and their
  \<open>created_at\<close> is 8 afterwards.
\<close>

theorem created_at_reset_counterexample:
  "save_mapping (ex_saved 5) ex_mapping ex_frags ex_gen 8 = Inr (ex_saved 8) \<and>
   map e_entity_id (entities (ex_saved 5)) = [''E-000001'', ''E-000002''] \<and>
   map e_created_at (entities (ex_saved 5)) = [5, 5] \<and>
   map e_entity_id (entities (ex_saved 8)) = [''E-000001'', ''E-000002''] \<and>
   map e_created_at (entities (ex_saved 8)) = [8, 8]"
  by (simp add: ex_save_again) (simp add: ex_saved_def)

text \<open>
  Claim C7 as amended.  A successful \<^verbatim>\<open>save_mapping\<close> whose mapping contains an entity
  id leaves exactly one row with that id in the entities table, whatever was stored
  under the id before, and both \<open>created_at\<close> and \<open>updated_at\<close> of this row are the
  instant of the call.
\<close>

theorem save_mapping_sets_both_timestamps:
  assumes "save_mapping s m frs gen ts = Inr s'" and "eid \<in> set (mapping_entity_ids m)"
  shows "map (\<lambda>e. (e_created_at e, e_updated_at e))
             (filter (\<lambda>e. e_entity_id e = eid) (entities s')) = [(ts, ts)]"
proof -
  from assms(1) obtain G where
    keys: "set (map fst G) = set (mapping_entity_ids m)" and dist: "distinct (map fst G)" and
    ents: "entities s' = filter (\<lambda>e. e_entity_id e \<notin> set (mapping_entity_ids m)) (entities s) @
                   map (entity_of_group ts) G"
    by (rule save_mapping_eq)
  from assms(2) have old: "filter (\<lambda>e. e_entity_id e = eid)
      (filter (\<lambda>e. e_entity_id e \<notin> set (mapping_entity_ids m)) (entities s)) = []"
    by (auto simp: filter_empty_conv)
  from assms(2) keys have "eid \<in> set (map fst G)" by simp
  from filter_entity_of_group [OF dist this, of ts] show ?thesis
    by (simp only: ents filter_append old append_Nil)
qed

theorem save_mapping_sets_both_timestamps_witness:
  "save_mapping (ex_saved 5) ex_mapping ex_frags ex_gen 8 = Inr (ex_saved 8) \<and>
   map (\<lambda>e. (e_created_at e, e_updated_at e))
       (filter (\<lambda>e. e_entity_id e = ''E-000001'') (entities (ex_saved 5))) = [(5, 5)] \<and>
   map (\<lambda>e. (e_created_at e, e_updated_at e))
       (filter (\<lambda>e. e_entity_id e = ''E-000001'') (entities (ex_saved 8))) = [(8, 8)]"
proof -
  have h: "''E-000001'' \<in> set (mapping_entity_ids ex_mapping)" by (simp add: ex_ids)
  from save_mapping_sets_both_timestamps [OF ex_save_again [of 5 8] h]
  have "map (\<lambda>e. (e_created_at e, e_updated_at e))
       (filter (\<lambda>e. e_entity_id e = ''E-000001'') (entities (ex_saved 8))) = [(8, 8)]" .
  moreover have "map (\<lambda>e. (e_created_at e, e_updated_at e))
       (filter (\<lambda>e. e_entity_id e = ''E-000001'') (entities (ex_saved 5))) = [(5, 5)]"
    by (simp add: ex_saved_def)
  ultimately show ?thesis using ex_save_again [of 5 8] by blast
qed

lemma find_distinct_key:
  "distinct (map f xs) \<Longrightarrow> x \<in> set xs \<Longrightarrow> find (\<lambda>y. f y = f x) xs = Some x"
  by (induction xs) auto

text \<open>
  Claim C5 (cascade on the last fragment).  For an entity in the store with exactly one
  fragment row, \<^verbatim>\<open>delete_fragment\<close> on that row's id (its fresh erasure id not yet in
  use) returns success with the entity id, \<^verbatim>\<open>get_entity\<close> no longer finds the entity,
  and exactly one erasure record, with \<open>fragments_deleted = 1\<close>, has been appended.
\<close>

theorem delete_last_fragment_cascades:
  assumes pk: "distinct (map f_frag_id (fragments s))"
    and ent: "entity_id \<in> set (map e_entity_id (entities s))"
    and one: "filter (\<lambda>f. f_entity_id f = entity_id) (fragments s) = [fr]"
    and fresh: "''E-'' @ uuid \<notin> set (map er_erasure_id (erasures s))"
  shows "delete_fragment s (f_frag_id fr) requested_by reason uuid ts =
           (delete_fragment_cascade s (f_frag_id fr) entity_id
              \<lparr>er_erasure_id = ''E-'' @ uuid, er_entity_id = entity_id,
               er_fragments_deleted = 1, er_requested_by = requested_by,
               er_reason = reason, er_timestamp = ts\<rparr>, True, entity_id) \<and>
         get_entity (fst (delete_fragment s (f_frag_id fr) requested_by reason uuid ts)) entity_id = None \<and>
         erasures (fst (delete_fragment s (f_frag_id fr) requested_by reason uuid ts)) =
           erasures s @ [\<lparr>er_erasure_id = ''E-'' @ uuid, er_entity_id = entity_id,
               er_fragments_deleted = 1, er_requested_by = requested_by,
               er_reason = reason, er_timestamp = ts\<rparr>] \<and>
         get_entity s entity_id \<noteq> None"
proof -
  from one have "fr \<in> set (filter (\<lambda>f. f_entity_id f = entity_id) (fragments s))" by simp
  then have mem: "fr \<in> set (fragments s)" and eid: "f_entity_id fr = entity_id" by auto
  from find_distinct_key [OF pk mem]
  have fnd: "find (\<lambda>f. f_frag_id f = f_frag_id fr) (fragments s) = Some fr" .
  have none: "filter (\<lambda>f. f_entity_id f = f_entity_id fr)
           (filter (\<lambda>f. f_frag_id f \<noteq> f_frag_id fr) (fragments s)) = []"
  proof -
    have "filter (\<lambda>f. f_frag_id f \<noteq> f_frag_id fr) (filter (\<lambda>f. f_entity_id f = entity_id) (fragments s)) = []"
      by (simp only: one) simp
    then show ?thesis
      by (simp add: eid conj_commute)
  qed
  have del: "delete_fragment s (f_frag_id fr) requested_by reason uuid ts =
           (delete_fragment_cascade s (f_frag_id fr) entity_id
              \<lparr>er_erasure_id = ''E-'' @ uuid, er_entity_id = entity_id,
               er_fragments_deleted = 1, er_requested_by = requested_by,
               er_reason = reason, er_timestamp = ts\<rparr>, True, entity_id)"
    using delete_fragment_last [OF fnd none fresh] by (simp add: eid)
  have "find (\<lambda>e. e_entity_id e = entity_id) (filter (\<lambda>e. e_entity_id e \<noteq> entity_id) (entities s)) = None"
    by (simp add: find_None_iff)
  then have gone: "get_entity (delete_fragment_cascade s (f_frag_id fr) entity_id er) entity_id = None" for er
    by (simp add: get_entity_def delete_fragment_cascade_def)
  from ent have "find (\<lambda>e. e_entity_id e = entity_id) (entities s) \<noteq> None"
    by (auto simp: find_None_iff)
  then have before: "get_entity s entity_id \<noteq> None"
    by (auto simp: get_entity_def Let_def split: option.splits)
  show ?thesis
    by (simp add: del gone before) (simp add: delete_fragment_cascade_def)
qed

theorem delete_last_fragment_cascades_witness:
  "delete_fragment ex_store ''E-000002-c'' ''system'' ''Manual deletion'' ''u1'' 9 =
     (\<lparr>entities = [\<lparr>e_entity_id = ''E-000001'', e_fragment_count = 2, e_confidence = 1,
                     e_created_at = 5, e_updated_at = 5\<rparr>],
       fragments = [\<lparr>f_frag_id = ''E-000001-a'', f_entity_id = ''E-000001'', f_frag_type = ''EMAIL_ADDRESS'',
                      f_value = ''alice@example.com'', f_source = ''a.txt'', f_confidence = 1, f_created_at = 5\<rparr>,
                    \<lparr>f_frag_id = ''E-000001-b'', f_entity_id = ''E-000001'', f_frag_type = ''PERSON'',
                      f_value = ''Alice'', f_source = ''a.txt'', f_confidence = 1, f_created_at = 5\<rparr>],
       erasures = [\<lparr>er_erasure_id = ''E-u1'', er_entity_id = ''E-000002'', er_fragments_deleted = 1,
                     er_requested_by = ''system'', er_reason = ''Manual deletion'', er_timestamp = 9\<rparr>]\<rparr>,
      True, ''E-000002'') \<and>
   get_entity (fst (delete_fragment ex_store ''E-000002-c'' ''system'' ''Manual deletion'' ''u1'' 9)) ''E-000002'' = None"
proof -
  let ?fr = "\<lparr>f_frag_id = ''E-000002-c'', f_entity_id = ''E-000002'', f_frag_type = ''EMAIL_ADDRESS'',
        f_value = ''bob@example.com'', f_source = ''b.txt'', f_confidence = 1, f_created_at = 5\<rparr>"
  have h1: "distinct (map f_frag_id (fragments ex_store))" by (simp add: ex_store_def)
  have h2: "''E-000002'' \<in> set (map e_entity_id (entities ex_store))" by (simp add: ex_store_def)
  have h3: "filter (\<lambda>f. f_entity_id f = ''E-000002'') (fragments ex_store) = [?fr]"
    by (simp add: ex_store_def)
  have h4: "''E-'' @ ''u1'' \<notin> set (map er_erasure_id (erasures ex_store))" by (simp add: ex_store_def)
  note F = delete_last_fragment_cascades [OF h1 h2 h3 h4, of "''system''" "''Manual deletion''" 9]
  have R: "delete_fragment ex_store ''E-000002-c'' ''system'' ''Manual deletion'' ''u1'' 9 =
    (delete_fragment_cascade ex_store ''E-000002-c'' ''E-000002''
       \<lparr>er_erasure_id = ''E-u1'', er_entity_id = ''E-000002'', er_fragments_deleted = 1,
        er_requested_by = ''system'', er_reason = ''Manual deletion'', er_timestamp = 9\<rparr>,
     True, ''E-000002'')"
    using F by simp
  show ?thesis unfolding R
    by (simp add: delete_fragment_cascade_def get_entity_def ex_store_def)
qed

theorem count_invariant_witness:
  "pk_ok ex_store \<and> count_inv ex_store \<and>
   count_inv (apply_operation ex_store (DeleteFragment ''E-000001-a'' ''system'' ''Manual deletion'' ''u1'' 9)) \<and>
   count_inv (foldl apply_operation init_db [SaveMapping ex_mapping ex_frags ex_gen 5])"
  using count_invariant [of ex_store "DeleteFragment ''E-000001-a'' ''system'' ''Manual deletion'' ''u1'' 9"
      "[SaveMapping ex_mapping ex_frags ex_gen 5]"]
  by (simp add: ex_store_def pk_ok_def count_inv_def count_fragments_def)

text \<open>
  Claim C10 (a failing detector does not abort the scan).  If the NER analyzer raises an
  exception on the text, \<^verbatim>\<open>scan_text\<close> does not raise: it prints one line and returns
  the fragments of the e-mail and CPR validators, in this order.
\<close>

theorem scan_text_survives_analyzer_error:
  "analyze text = RaisesException e \<Longrightarrow>
     scan_text analyze email_finditer cpr_finditer text source =
       Inr ([''Presidio analysis error: '' @ e],
            map (\<lambda>m. \<lparr>ftype = Some ''EMAIL_ADDRESS'', fvalue = Some m, fsource = Some source\<rparr>)
                (email_finditer text) @
            map (\<lambda>m. \<lparr>ftype = Some ''CPR'', fvalue = Some m, fsource = Some source\<rparr>)
                (cpr_finditer text))"
  by (simp add: scan_text_def)

theorem scan_text_survives_analyzer_error_witness:
  "scan_text (\<lambda>t. RaisesException ''boom'') (\<lambda>t. [''a@b.co'']) (\<lambda>t. [''010101-1234''])
      ''mail a@b.co id 010101-1234'' ''f.txt'' =
     Inr ([''Presidio analysis error: boom''],
          [\<lparr>ftype = Some ''EMAIL_ADDRESS'', fvalue = Some ''a@b.co'', fsource = Some ''f.txt''\<rparr>,
           \<lparr>ftype = Some ''CPR'', fvalue = Some ''010101-1234'', fsource = Some ''f.txt''\<rparr>])"
  using scan_text_survives_analyzer_error [of "\<lambda>t. RaisesException ''boom''"
      "''mail a@b.co id 010101-1234''" "''boom''" "\<lambda>t. [''a@b.co'']" "\<lambda>t. [''010101-1234'']" "''f.txt''"]
  by simp

lemma like_percent_all [simp]: "like ''%'' t"
  by (induction t) auto









lemma search_entities_too_long:
  assumes "fragments s \<noteq> []" and "49998 < length query"
  shows "search_entities s query = Inl OperationalError"
  using assms by (simp add: search_entities_def Let_def)

lemma search_entities_nul_cut:
  "search_entities ex_store (''com'' @ [CHR 0x00] @ ''zzz'') = search_entities ex_store ''com''"
  by code_simp




section \<open>Properties of the linker\<close>

lemma ratio_alice_alice: "ratio ''alice@example.com'' ''alice@example.com'' = 1"
  by code_simp

lemma ratio_bob_alice: "ratio ''bob@example.com'' ''alice@example.com'' = 3 / 4"
  by code_simp

lemma norm_alice: "strip (lower ''alice@example.com'') = ''alice@example.com''"
  by code_simp

lemma norm_bob: "strip (lower ''bob@example.com'') = ''bob@example.com''"
  by code_simp

lemma format_1: "format_entity_id (Suc 0) = ''E-000001''"
  by code_simp

lemma format_2: "format_entity_id (Suc (Suc 0)) = ''E-000002''"
  by code_simp

lemma round2_1: "round2 1 = 1"
  by code_simp

text \<open>
  Claim C8 (clustering determinism).  For the fragments whose values are
  \<^verbatim>\<open>alice@example.com\<close>, \<^verbatim>\<open>alice@example.com\<close>, \<^verbatim>\<open>bob@example.com\<close>, whatever their
  types and sources, and the threshold 0.85, the linker returns two entity ids: the
  first two fragments share \<^verbatim>\<open>E-000001\<close>, the first with confidence 1.0 as the seed
  and the second with the rounded similarity 1.0, and the third seeds \<^verbatim>\<open>E-000002\<close>.
\<close>

theorem cluster_fragments_alice_bob:
  "cluster_fragments
     [\<lparr>ftype = t1, fvalue = Some ''alice@example.com'', fsource = s1\<rparr>,
      \<lparr>ftype = t2, fvalue = Some ''alice@example.com'', fsource = s2\<rparr>,
      \<lparr>ftype = t3, fvalue = Some ''bob@example.com'', fsource = s3\<rparr>] (85 / 100) =
   Inr [(0, \<lparr>m_entity_id = ''E-000001'', m_confidence = Some 1\<rparr>),
        (1, \<lparr>m_entity_id = ''E-000001'', m_confidence = Some 1\<rparr>),
        (2, \<lparr>m_entity_id = ''E-000002'', m_confidence = Some 1\<rparr>)] \<and>
   mapping_entity_ids
       [(0, \<lparr>m_entity_id = ''E-000001'', m_confidence = Some 1\<rparr>),
        (1, \<lparr>m_entity_id = ''E-000001'', m_confidence = Some 1\<rparr>),
        (2, \<lparr>m_entity_id = ''E-000002'', m_confidence = Some 1\<rparr>)] = [''E-000001'', ''E-000002'']"
  by (simp add: cluster_fragments_def cluster_row_def Let_def norm_alice norm_bob ratio_alice_alice
      ratio_bob_alice format_1 format_2 round2_1 mapping_entity_ids_def)

lemma value_of_snoc: "value_of (s @ [c]) = 10 * value_of s + (of_char c - 48)"
  by (simp add: value_of_def)

lemma value_of_zeros: "value_of (replicate k (CHR ''0'') @ s) = value_of s"
proof -
  have "foldl (\<lambda>acc c. 10 * acc + (of_char c - 48)) (0::nat) (replicate k (CHR ''0'')) = 0"
    by (induction k) simp_all
  then show ?thesis by (simp add: value_of_def)
qed

lemma value_of_decimal: "value_of (decimal n) = n"
proof (induction n rule: decimal.induct)
  case (1 n)
  show ?case
  proof (cases "n < 10")
    case True
    then have "decimal n = [char_of (48 + n)]" by (subst decimal.simps) simp
    moreover from True have "(48 + n) mod 256 = 48 + n" by simp
    ultimately show ?thesis by (simp add: value_of_def)
  next
    case False
    then have d: "decimal n = decimal (n div 10) @ [char_of (48 + n mod 10)]"
      by (subst decimal.simps) simp
    have "(48 + n mod 10) mod 256 = 48 + n mod 10"
      by (rule mod_less) (simp add: less_le_trans [OF add_strict_left_mono [OF mod_less_divisor]])
    with "1.IH" [OF False] show ?thesis
      by (simp add: d value_of_snoc)
  qed
qed

lemma format_entity_id_inj: "format_entity_id a = format_entity_id b \<Longrightarrow> a = b"
proof -
  assume "format_entity_id a = format_entity_id b"
  then have "value_of (replicate (6 - length (decimal a)) (CHR ''0'') @ decimal a) =
             value_of (replicate (6 - length (decimal b)) (CHR ''0'') @ decimal b)"
    by (simp add: format_entity_id_def)
  then show "a = b" by (simp only: value_of_zeros value_of_decimal)
qed

lemma max_list_ge: "x \<in> set xs \<Longrightarrow> x \<le> max_list xs"
  by (induction xs rule: max_list.induct) auto

lemma max_list_mem: "xs \<noteq> [] \<Longrightarrow> max_list xs \<in> set xs"
  by (induction xs rule: max_list.induct) (auto simp: max_def)

lemma existing_vals_Inr:
  "existing_vals ms = Inr evs \<Longrightarrow>
     (\<forall>m\<in>set ms. \<exists>v. m = Some v) \<and> set evs = {strip (lower v) |v. Some v \<in> set ms} \<and>
     (evs = [] \<longleftrightarrow> ms = [])"
proof (induction ms arbitrary: evs rule: existing_vals.induct)
  case 1
  then show ?case by simp
next
  case (2 vs)
  then show ?case by simp
next
  case (3 v vs)
  from "3.prems" obtain evs' where e: "existing_vals vs = Inr evs'" "evs = strip (lower v) # evs'"
    by (auto split: sum.splits)
  from "3.IH" [OF e(1)] e(2) show ?case by auto
qed

lemma match_groups_None:
  "match_groups t val row gs = Inr None \<Longrightarrow>
     \<forall>m\<in>members_of gs. \<exists>v. m = Some v \<and> ratio val (strip (lower v)) < t"
proof (induction gs)
  case Nil
  show ?case by (simp add: members_of_def)
next
  case (Cons g gs)
  obtain eid ms where g: "g = (eid, ms)" by (cases g)
  from Cons.prems g obtain evs where ev: "existing_vals ms = Inr evs"
    by (auto split: sum.splits)
  let ?sims = "map (\<lambda>ev. ratio val ev) evs"
  from Cons.prems g ev have low: "\<not> t \<le> (if ?sims \<noteq> [] then max_list ?sims else 0)"
    and rest: "match_groups t val row gs = Inr None"
    by (auto simp: Let_def split: if_splits sum.splits option.splits)
  have here: "\<exists>v. m = Some v \<and> ratio val (strip (lower v)) < t" if m: "m \<in> set ms" for m
  proof -
    from existing_vals_Inr [OF ev] have a: "\<forall>m\<in>set ms. \<exists>v. m = Some v"
      and b: "set evs = {strip (lower v) |v. Some v \<in> set ms}" by blast+
    from a m obtain v where mv: "m = Some v" by blast
    with m b have "strip (lower v) \<in> set evs" by blast
    with mv have v: "m = Some v" "strip (lower v) \<in> set evs" by simp_all
    then have "ratio val (strip (lower v)) \<in> set ?sims" by simp
    then have "ratio val (strip (lower v)) \<le> max_list ?sims" by (rule max_list_ge)
    moreover from v have "?sims \<noteq> []" by auto
    ultimately show ?thesis using low v(1) by auto
  qed
  from Cons.IH [OF rest] here show ?case
    by (auto simp: members_of_def g)
qed

lemma match_groups_Some:
  "match_groups t val row gs = Inr (Some (eid, sim, gs')) \<Longrightarrow> \<forall>g\<in>set gs. snd g \<noteq> [] \<Longrightarrow>
     (\<exists>v. Some v \<in> members_of gs \<and> t \<le> ratio val (strip (lower v))) \<and>
     members_of gs' = insert row (members_of gs) \<and> map fst gs' = map fst gs \<and>
     eid \<in> set (map fst gs) \<and> (\<forall>g\<in>set gs'. snd g \<noteq> [])"
proof (induction gs arbitrary: gs')
  case Nil
  then show ?case by simp
next
  case (Cons g gs)
  obtain e ms where g: "g = (e, ms)" by (cases g)
  from Cons.prems g obtain evs where ev: "existing_vals ms = Inr evs"
    by (auto split: sum.splits)
  let ?sims = "map (\<lambda>ev. ratio val ev) evs"
  let ?max = "if ?sims \<noteq> [] then max_list ?sims else 0"
  show ?case
  proof (cases "t \<le> ?max")
    case True
    with Cons.prems g ev have res: "eid = e" "sim = ?max" "gs' = (e, ms @ [row]) # gs"
      by (auto simp: Let_def)
    have "\<exists>v. Some v \<in> set ms \<and> t \<le> ratio val (strip (lower v))"
    proof (cases "?sims = []")
      case False
      then have "max_list ?sims \<in> set ?sims" by (rule max_list_mem)
      then obtain ev' where ev': "ev' \<in> set evs" "max_list ?sims = ratio val ev'" by auto
      moreover from existing_vals_Inr [OF ev]
      have "set evs = {strip (lower v) |v. Some v \<in> set ms}" by blast
      ultimately obtain v where "Some v \<in> set ms" "ev' = strip (lower v)"
        by blast
      with True False ev'(2) show ?thesis by auto
    next
      case e: True
      with existing_vals_Inr [OF ev] have "ms = []" by simp
      with Cons.prems(2) g show ?thesis by simp
    qed
    with res Cons.prems(2) show ?thesis by (auto simp: members_of_def g)
  next
    case False
    with Cons.prems g ev obtain rest' where
      rec: "match_groups t val row gs = Inr (Some (eid, sim, rest'))" and gs': "gs' = (e, ms) # rest'"
      by (auto simp: Let_def split: sum.splits option.splits)
    from Cons.prems(2) have "\<forall>g\<in>set gs. snd g \<noteq> []" by simp
    from Cons.IH [OF rec this] gs' Cons.prems(2) show ?thesis
      by (auto simp: members_of_def g)
  qed
qed

lemma dict_set_fresh: "k \<notin> set (map fst d) \<Longrightarrow> dict_set k v d = d @ [(k, v)]"
  by (induction d) auto

lemma cluster_row_cases:
  assumes "cluster_row t i row st = Inr st'" "ids_ok st"
  obtains
    (skipped) "norm_value (fvalue row) = []" "st' = st"
  | (joined) "norm_value (fvalue row) \<noteq> []" "ids_ok st'" "entity_counter st' = entity_counter st"
      "length (cmapping st') = Suc (length (cmapping st))"
      "members_of (entity_groups st') = insert (fvalue row) (members_of (entity_groups st))"
      "\<exists>v. Some v \<in> members_of (entity_groups st) \<and> t \<le> ratio (norm_value (fvalue row)) (strip (lower v))"
  | (seeded) "norm_value (fvalue row) \<noteq> []" "ids_ok st'" "entity_counter st' = Suc (entity_counter st)"
      "length (cmapping st') = Suc (length (cmapping st))"
      "members_of (entity_groups st') = insert (fvalue row) (members_of (entity_groups st))"
      "\<forall>m\<in>members_of (entity_groups st). \<exists>v. m = Some v \<and> ratio (norm_value (fvalue row)) (strip (lower v)) < t"
proof (cases "norm_value (fvalue row) = []")
  case True
  with assms(1) have "st' = st" by (simp add: cluster_row_def norm_value_def Let_def)
  with True show ?thesis by (rule skipped)
next
  case False
  let ?val = "norm_value (fvalue row)"
  from assms(2) have ne: "\<forall>g\<in>set (entity_groups st). snd g \<noteq> []" by (simp add: ids_ok_def)
  show ?thesis
  proof (cases "match_groups t ?val (fvalue row) (entity_groups st)")
    case (Inl err)
    with assms(1) False show ?thesis by (simp add: cluster_row_def norm_value_def Let_def)
  next
    case (Inr res)
    show ?thesis
    proof (cases res)
      case None
      let ?eid = "format_entity_id (Suc (entity_counter st))"
      from assms(1) False Inr None have st': "st' =
          \<lparr>entity_groups = dict_set ?eid [fvalue row] (entity_groups st),
           cmapping = cmapping st @ [(i, \<lparr>m_entity_id = ?eid, m_confidence = Some 1\<rparr>)],
           entity_counter = Suc (entity_counter st)\<rparr>"
        by (simp add: cluster_row_def norm_value_def Let_def)
      from assms(2) have
        a1: "map fst (entity_groups st) = map format_entity_id [1..<Suc (entity_counter st)]" and
        a2: "set (map (\<lambda>(idx, info). m_entity_id info) (cmapping st)) = set (map fst (entity_groups st))" and
        a3: "\<forall>g\<in>set (entity_groups st). snd g \<noteq> []"
        unfolding ids_ok_def by blast+
      have fresh: "?eid \<notin> set (map fst (entity_groups st))"
        unfolding a1 by (auto dest: format_entity_id_inj simp del: upt_Suc)
      note ds = dict_set_fresh [OF fresh, of "[fvalue row]"]
      have up: "[1..<Suc (Suc (entity_counter st))] = [1..<Suc (entity_counter st)] @ [Suc (entity_counter st)]"
        by simp
      have "map fst (entity_groups st') = map format_entity_id [1..<Suc (entity_counter st')]"
        unfolding st' ds by (simp only: cluster_state.simps up map_append a1) simp
      moreover have "set (map (\<lambda>(idx, info). m_entity_id info) (cmapping st')) = set (map fst (entity_groups st'))"
        unfolding st' ds using a2 by auto
      moreover have "\<forall>g\<in>set (entity_groups st'). snd g \<noteq> []"
        unfolding st' ds using a3 by auto
      ultimately have "ids_ok st'" by (simp add: ids_ok_def del: upt_Suc)
      moreover have "members_of (entity_groups st') = insert (fvalue row) (members_of (entity_groups st))"
        by (auto simp: st' ds members_of_def)
      moreover from Inr None match_groups_None
      have "\<forall>m\<in>members_of (entity_groups st). \<exists>v. m = Some v \<and> ratio ?val (strip (lower v)) < t"
        by blast
      ultimately show ?thesis using seeded False by (simp add: st')
    next
      case (Some r)
      obtain eid sim gs' where r: "r = (eid, sim, gs')" by (cases r)
      from assms(1) False Inr Some r have st': "st' =
          st\<lparr>entity_groups := gs',
             cmapping := cmapping st @ [(i, \<lparr>m_entity_id = eid, m_confidence = Some (round2 sim)\<rparr>)]\<rparr>"
        by (simp add: cluster_row_def norm_value_def Let_def)
      from Inr Some r have "match_groups t ?val (fvalue row) (entity_groups st) = Inr (Some (eid, sim, gs'))"
        by simp
      from match_groups_Some [OF this ne] have m:
        "\<exists>v. Some v \<in> members_of (entity_groups st) \<and> t \<le> ratio ?val (strip (lower v))"
        "members_of gs' = insert (fvalue row) (members_of (entity_groups st))"
        "map fst gs' = map fst (entity_groups st)" "eid \<in> set (map fst (entity_groups st))"
        "\<forall>g\<in>set gs'. snd g \<noteq> []"
        by blast+
      from assms(2) have
        a1: "map fst (entity_groups st) = map format_entity_id [1..<Suc (entity_counter st)]" and
        a2: "set (map (\<lambda>(idx, info). m_entity_id info) (cmapping st)) = set (map fst (entity_groups st))"
        unfolding ids_ok_def by blast+
      have "set (map (\<lambda>(idx, info). m_entity_id info) (cmapping st')) =
            insert eid (set (map (\<lambda>(idx, info). m_entity_id info) (cmapping st)))"
        by (simp add: st')
      also have "\<dots> = set (map fst (entity_groups st))"
        unfolding a2 using m(4) by (rule insert_absorb)
      finally have "set (map (\<lambda>(idx, info). m_entity_id info) (cmapping st')) = set (map fst gs')"
        by (simp only: m(3))
      moreover have "map fst gs' = map format_entity_id [1..<Suc (entity_counter st)]"
        by (simp only: m(3) a1)
      ultimately have "ids_ok st'"
        unfolding ids_ok_def using m(5) by (simp add: st' del: upt_Suc)
      with m(1,2) show ?thesis using joined False by (simp add: st')
    qed
  qed
qed

lemma ids_ok_initial: "ids_ok initial_state"
  by (simp add: ids_ok_def initial_state_def)

lemma cluster_rows_ids_ok:
  "cluster_rows t i rows st = Inr st' \<Longrightarrow> ids_ok st \<Longrightarrow> ids_ok st'"
proof (induction rows arbitrary: i st)
  case Nil
  then show ?case by simp
next
  case (Cons row rows)
  from Cons.prems(1) obtain s where s: "cluster_row t i row st = Inr s"
    and rec: "cluster_rows t (i + 1) rows s = Inr st'"
    by (auto split: sum.splits)
  from s Cons.prems(2) have "ids_ok s"
    by (cases rule: cluster_row_cases) (use Cons.prems(2) in simp_all)
  with Cons.IH [OF rec] show ?case .
qed

lemma cluster_rows_monotone:
  assumes "t1 \<le> t2"
  shows "cluster_rows t1 i rows s1 = Inr r1 \<Longrightarrow> cluster_rows t2 i rows s2 = Inr r2 \<Longrightarrow>
     ids_ok s1 \<Longrightarrow> ids_ok s2 \<Longrightarrow>
     members_of (entity_groups s1) = members_of (entity_groups s2) \<Longrightarrow>
     entity_counter s1 \<le> entity_counter s2 \<Longrightarrow>
     length (cmapping s1) = length (cmapping s2) \<Longrightarrow>
     entity_counter r1 \<le> entity_counter r2 \<and> length (cmapping r1) = length (cmapping r2)"
proof (induction rows arbitrary: i s1 s2)
  case Nil
  then show ?case by simp
next
  case (Cons row rows)
  from Cons.prems(1) obtain u1 where u1: "cluster_row t1 i row s1 = Inr u1"
    and rec1: "cluster_rows t1 (i + 1) rows u1 = Inr r1"
    by (auto split: sum.splits)
  from Cons.prems(2) obtain u2 where u2: "cluster_row t2 i row s2 = Inr u2"
    and rec2: "cluster_rows t2 (i + 1) rows u2 = Inr r2"
    by (auto split: sum.splits)
  have step: "ids_ok u1 \<and> ids_ok u2 \<and>
      members_of (entity_groups u1) = members_of (entity_groups u2) \<and>
      entity_counter u1 \<le> entity_counter u2 \<and> length (cmapping u1) = length (cmapping u2)"
    using u1 Cons.prems(3)
  proof (cases rule: cluster_row_cases)
    case skipped
    from u2 Cons.prems(4) show ?thesis
      by (cases rule: cluster_row_cases) (use skipped Cons.prems in simp_all)
  next
    case j1: joined
    from u2 Cons.prems(4) show ?thesis
      by (cases rule: cluster_row_cases) (use j1 Cons.prems in simp_all)
  next
    case sd1: seeded
    from u2 Cons.prems(4) show ?thesis
    proof (cases rule: cluster_row_cases)
      case skipped
      with sd1 show ?thesis by simp
    next
      case joined
      then obtain v where "Some v \<in> members_of (entity_groups s2)"
        "t2 \<le> ratio (norm_value (fvalue row)) (strip (lower v))" by blast
      with Cons.prems(5) sd1(6) have "ratio (norm_value (fvalue row)) (strip (lower v)) < t1"
        by auto
      with \<open>t2 \<le> _\<close> assms show ?thesis by simp
    next
      case seeded
      with sd1 Cons.prems show ?thesis by simp
    qed
  qed
  then show ?case using Cons.IH [OF rec1 rec2] by blast
qed

lemma entity_count_final:
  assumes "ids_ok st"
  shows "entity_count (cmapping st) = entity_counter st"
proof -
  have inj: "inj_on format_entity_id (set [1..<Suc (entity_counter st)])"
    by (rule inj_onI) (rule format_entity_id_inj)
  from assms have
    a1: "map fst (entity_groups st) = map format_entity_id [1..<Suc (entity_counter st)]" and
    a2: "set (map (\<lambda>(idx, info). m_entity_id info) (cmapping st)) = set (map fst (entity_groups st))"
    unfolding ids_ok_def by blast+
  have "entity_count (cmapping st) = card (set (map (\<lambda>(idx, info). m_entity_id info) (cmapping st)))"
    by (simp add: entity_count_def mapping_entity_ids_def length_remdups_card_conv)
  also have "\<dots> = card (set (map format_entity_id [1..<Suc (entity_counter st)]))"
    by (simp only: a2 a1)
  also have "\<dots> = card (format_entity_id ` set [1..<Suc (entity_counter st)])"
    by (simp only: set_map)
  also have "\<dots> = card (set [1..<Suc (entity_counter st)])"
    using inj by (rule card_image)
  also have "\<dots> = entity_counter st"
    by (simp only: set_upt card_atLeastLessThan diff_Suc_1)
  finally show ?thesis .
qed

lemma entity_count_zero: "entity_count m = 0 \<Longrightarrow> m = []"
proof -
  assume "entity_count m = 0"
  then have "remdups (map (\<lambda>(idx, info). m_entity_id info) m) = []"
    by (simp add: entity_count_def mapping_entity_ids_def)
  then have "set (map (\<lambda>(idx, info). m_entity_id info) m) = {}"
    by (metis set_remdups set_empty)
  then show "m = []" by simp
qed

lemma cluster_fragments_state:
  assumes "cluster_fragments frs t = Inr m"
  obtains (no_values) "list_all (\<lambda>f. fvalue f = None) frs" "m = []"
  | (clustered) st where "cluster_rows t 0 frs initial_state = Inr st" "m = cmapping st" "ids_ok st"
proof (cases "list_all (\<lambda>f. fvalue f = None) frs")
  case True
  with assms have "m = []" by (simp add: cluster_fragments_def)
  with True show ?thesis by (rule no_values)
next
  case False
  with assms obtain st where st: "cluster_rows t 0 frs initial_state = Inr st" "m = cmapping st"
    by (auto simp: cluster_fragments_def initial_state_def split: sum.splits)
  from cluster_rows_ids_ok [OF st(1) ids_ok_initial] st show ?thesis by (rule clustered [rotated 2])
qed

lemma threshold_monotone_counts:
  assumes le: "t1 \<le> t2" and c1: "cluster_fragments frs t1 = Inr m1"
    and c2: "cluster_fragments frs t2 = Inr m2"
  shows "entity_count m1 \<le> entity_count m2 \<and> length m1 = length m2"
  using c1
proof (cases rule: cluster_fragments_state)
  case no_values
  with c2 show ?thesis by (simp add: cluster_fragments_def)
next
  case (clustered st1)
  from c2 show ?thesis
  proof (cases rule: cluster_fragments_state)
    case no_values
    with c1 show ?thesis by (simp add: cluster_fragments_def)
  next
    case (clustered st2)
    from cluster_rows_monotone [OF le \<open>cluster_rows t1 0 frs initial_state = Inr st1\<close>
        clustered(1) ids_ok_initial ids_ok_initial]
    have "entity_counter st1 \<le> entity_counter st2 \<and> length (cmapping st1) = length (cmapping st2)"
      by simp
    with entity_count_final [OF \<open>ids_ok st1\<close>] entity_count_final [OF clustered(3)]
      \<open>m1 = cmapping st1\<close> clustered(2)
    show ?thesis by simp
  qed
qed

lemma existing_vals_total: "\<forall>m\<in>set ms. m \<noteq> None \<Longrightarrow> \<exists>evs. existing_vals ms = Inr evs"
  by (induction ms rule: existing_vals.induct) auto

lemma match_groups_total:
  "\<forall>m\<in>members_of gs. m \<noteq> None \<Longrightarrow> \<exists>r. match_groups t val row gs = Inr r"
proof (induction gs)
  case Nil
  show ?case by simp
next
  case (Cons g gs)
  obtain eid ms where g: "g = (eid, ms)" by (cases g)
  from Cons.prems g have "\<forall>m\<in>set ms. m \<noteq> None" and rest: "\<forall>m\<in>members_of gs. m \<noteq> None"
    by (auto simp: members_of_def)
  then obtain evs where ev: "existing_vals ms = Inr evs" using existing_vals_total by blast
  from Cons.IH [OF rest] obtain r where "match_groups t val row gs = Inr r" by blast
  with ev show ?case
    by (auto simp: g Let_def split: option.splits)
qed

lemma cluster_rows_total:
  "\<forall>f\<in>set rows. fvalue f \<noteq> None \<Longrightarrow> ids_ok st \<Longrightarrow> \<forall>m\<in>members_of (entity_groups st). m \<noteq> None \<Longrightarrow>
     \<exists>st'. cluster_rows t i rows st = Inr st'"
proof (induction rows arbitrary: i st)
  case Nil
  show ?case by simp
next
  case (Cons row rows)
  from match_groups_total [OF Cons.prems(3)]
  obtain r where r: "match_groups t (norm_value (fvalue row)) (fvalue row) (entity_groups st) = Inr r"
    by blast
  have "\<exists>u. cluster_row t i row st = Inr u"
  proof (cases "norm_value (fvalue row) = []")
    case True
    then show ?thesis by (simp add: cluster_row_def norm_value_def Let_def)
  next
    case False
    show ?thesis
    proof (cases r)
      case None
      with r False show ?thesis
        unfolding cluster_row_def norm_value_def Let_def by simp
    next
      case (Some p)
      obtain eid sim gs where "p = (eid, sim, gs)" by (cases p)
      with Some r False show ?thesis
        unfolding cluster_row_def norm_value_def Let_def by simp
    qed
  qed
  then obtain u where u: "cluster_row t i row st = Inr u" by blast
  from u Cons.prems(2) have "ids_ok u \<and> (\<forall>m\<in>members_of (entity_groups u). m \<noteq> None)"
    by (cases rule: cluster_row_cases) (use Cons.prems in auto)
  with Cons.IH [of u "i + 1"] Cons.prems(1) obtain st' where "cluster_rows t (i + 1) rows u = Inr st'"
    by auto
  with u show ?case by simp
qed

lemma cluster_fragments_total:
  assumes "list_all (\<lambda>f. fvalue f \<noteq> None) frs"
  shows "\<exists>m. cluster_fragments frs t = Inr m"
proof -
  from assms have "\<forall>f\<in>set frs. fvalue f \<noteq> None" by (simp add: list_all_iff)
  from cluster_rows_total [OF this ids_ok_initial, of t 0]
  obtain st where "cluster_rows t 0 frs initial_state = Inr st"
    by (auto simp: initial_state_def members_of_def)
  then show ?thesis
    by (simp add: cluster_fragments_def initial_state_def)
qed

lemma ex_cluster_half:
  "cluster_fragments ex_frags (1 / 2) =
     Inr [(0, \<lparr>m_entity_id = ''E-000001'', m_confidence = Some 1\<rparr>),
          (1, \<lparr>m_entity_id = ''E-000001'', m_confidence = Some 1\<rparr>),
          (2, \<lparr>m_entity_id = ''E-000001'', m_confidence = Some (3 / 4)\<rparr>)]"
  by code_simp

lemma ex_cluster_085: "cluster_fragments ex_frags (85 / 100) = Inr ex_mapping"
  by code_simp

text \<open>
  Claim C4 (threshold monotonicity).  For a fixed fragment list and thresholds
  \<open>t1 \<le> t2\<close>, whenever the linker returns a mapping for both, the mapping for \<open>t1\<close> has
  no more distinct entity ids than the one for \<open>t2\<close>, and its average number of
  fragments per entity is at least as large.  The linker does return a mapping whenever
  every fragment has a \<^verbatim>\<open>value\<close>.
\<close>

theorem threshold_monotone:
  assumes "t1 \<le> t2"
  shows "(cluster_fragments frs t1 = Inr m1 \<and> cluster_fragments frs t2 = Inr m2 \<longrightarrow>
            entity_count m1 \<le> entity_count m2 \<and>
            avg_fragments_per_entity m2 \<le> avg_fragments_per_entity m1) \<and>
         (list_all (\<lambda>f. fvalue f \<noteq> None) frs \<longrightarrow>
            (\<exists>m. cluster_fragments frs t1 = Inr m) \<and> (\<exists>m. cluster_fragments frs t2 = Inr m))"
proof (intro conjI impI)
  assume "cluster_fragments frs t1 = Inr m1 \<and> cluster_fragments frs t2 = Inr m2"
  with threshold_monotone_counts [OF assms, of frs m1 m2]
  have n: "entity_count m1 \<le> entity_count m2" and l: "length m1 = length m2" by simp_all
  from n show "entity_count m1 \<le> entity_count m2" .
  show "avg_fragments_per_entity m2 \<le> avg_fragments_per_entity m1"
  proof (cases "entity_count m1 = 0")
    case True
    then have "m1 = []" by (rule entity_count_zero)
    with l have "m2 = []" by simp
    with \<open>m1 = []\<close> show ?thesis by simp
  next
    case False
    with n have pos: "0 < entity_count m1" "0 < entity_count m2" by simp_all
    have "(of_nat (length m2) :: rat) / of_nat (entity_count m2) \<le>
          of_nat (length m2) / of_nat (entity_count m1)"
      using n pos by (intro divide_left_mono) simp_all
    with pos l show ?thesis by (simp add: avg_fragments_per_entity_def)
  qed
next
  assume "list_all (\<lambda>f. fvalue f \<noteq> None) frs"
  then show "\<exists>m. cluster_fragments frs t1 = Inr m" by (rule cluster_fragments_total)
next
  assume "list_all (\<lambda>f. fvalue f \<noteq> None) frs"
  then show "\<exists>m. cluster_fragments frs t2 = Inr m" by (rule cluster_fragments_total)
qed

theorem threshold_monotone_witness:
  "(1 / 2 :: rat) \<le> 85 / 100 \<and>
   entity_count [(0, \<lparr>m_entity_id = ''E-000001'', m_confidence = Some 1\<rparr>),
          (1, \<lparr>m_entity_id = ''E-000001'', m_confidence = Some 1\<rparr>),
          (2, \<lparr>m_entity_id = ''E-000001'', m_confidence = Some (3 / 4)\<rparr>)] \<le> entity_count ex_mapping \<and>
   avg_fragments_per_entity ex_mapping \<le>
   avg_fragments_per_entity [(0, \<lparr>m_entity_id = ''E-000001'', m_confidence = Some 1\<rparr>),
          (1, \<lparr>m_entity_id = ''E-000001'', m_confidence = Some 1\<rparr>),
          (2, \<lparr>m_entity_id = ''E-000001'', m_confidence = Some (3 / 4)\<rparr>)] \<and>
   avg_fragments_per_entity ex_mapping = 3 / 2"
proof -
  have le: "(1 / 2 :: rat) \<le> 85 / 100" by simp
  from threshold_monotone [OF le, of ex_frags _ ex_mapping] ex_cluster_half ex_cluster_085
  have "entity_count [(0, \<lparr>m_entity_id = ''E-000001'', m_confidence = Some 1\<rparr>),
          (1, \<lparr>m_entity_id = ''E-000001'', m_confidence = Some 1\<rparr>),
          (2, \<lparr>m_entity_id = ''E-000001'', m_confidence = Some (3 / 4)\<rparr>)] \<le> entity_count ex_mapping \<and>
   avg_fragments_per_entity ex_mapping \<le>
   avg_fragments_per_entity [(0, \<lparr>m_entity_id = ''E-000001'', m_confidence = Some 1\<rparr>),
          (1, \<lparr>m_entity_id = ''E-000001'', m_confidence = Some 1\<rparr>),
          (2, \<lparr>m_entity_id = ''E-000001'', m_confidence = Some (3 / 4)\<rparr>)]"
    by blast
  moreover have "avg_fragments_per_entity ex_mapping = 3 / 2"
    by (simp add: avg_fragments_per_entity_def entity_count_def mapping_entity_ids_def ex_mapping_def)
  ultimately show ?thesis using le by blast
qed

lemma ex_cluster_alice:
  "cluster_fragments [ex_alice] (85 / 100) = Inr [(0, \<lparr>m_entity_id = ''E-000001'', m_confidence = Some 1\<rparr>)]"
  by code_simp

lemma ex_cluster_bob:
  "cluster_fragments [ex_bob] (85 / 100) = Inr [(0, \<lparr>m_entity_id = ''E-000001'', m_confidence = Some 1\<rparr>)]"
  by code_simp

lemma ex_save_alice:
  "save_mapping init_db [(0, \<lparr>m_entity_id = ''E-000001'', m_confidence = Some 1\<rparr>)] [ex_alice] ex_gen 5 =
     Inr ex_store_alice"
  by (simp add: save_mapping_def mapping_entity_ids_def clear_entities_eq init_db_def ex_alice_def
      ex_store_alice_def py_index_def dict_get_def insert_entity_def insert_fragment_def ex_gen_def)

lemma ex_save_bob:
  "save_mapping ex_store_alice [(0, \<lparr>m_entity_id = ''E-000001'', m_confidence = Some 1\<rparr>)] [ex_bob] ex_gen 8 =
     Inr ex_store_bob"
  by (simp add: save_mapping_def mapping_entity_ids_def clear_entities_eq ex_bob_def
      ex_store_alice_def ex_store_bob_def py_index_def dict_get_def insert_entity_def
      insert_fragment_def ex_gen_def)

text \<open>
  Claim C6 (entity ids are globally unique across scan passes) fails.  A first pass over
  \<^verbatim>\<open>alice@example.com\<close> is saved as entity \<^verbatim>\<open>E-000001\<close>; a second pass over
  \<^verbatim>\<open>bob@example.com\<close> gives its cluster the same id \<^verbatim>\<open>E-000001\<close>, and saving it
  replaces the stored entity: the counter starts again at 1 in every call.
\<close>

theorem entity_id_reuse_counterexample:
  "cluster_fragments [ex_alice] (85 / 100) = Inr [(0, \<lparr>m_entity_id = ''E-000001'', m_confidence = Some 1\<rparr>)] \<and>
   save_mapping init_db [(0, \<lparr>m_entity_id = ''E-000001'', m_confidence = Some 1\<rparr>)] [ex_alice] ex_gen 5 =
     Inr ex_store_alice \<and>
   map e_entity_id (entities ex_store_alice) = [''E-000001''] \<and>
   map f_value (fragments ex_store_alice) = [''alice@example.com''] \<and>
   cluster_fragments [ex_bob] (85 / 100) = Inr [(0, \<lparr>m_entity_id = ''E-000001'', m_confidence = Some 1\<rparr>)] \<and>
   save_mapping ex_store_alice [(0, \<lparr>m_entity_id = ''E-000001'', m_confidence = Some 1\<rparr>)] [ex_bob] ex_gen 8 =
     Inr ex_store_bob \<and>
   map f_value (fragments ex_store_bob) = [''bob@example.com'']"
proof -
  have "map e_entity_id (entities ex_store_alice) = [''E-000001'']"
    "map f_value (fragments ex_store_alice) = [''alice@example.com'']"
    "map f_value (fragments ex_store_bob) = [''bob@example.com'']"
    by (simp_all add: ex_store_alice_def ex_store_bob_def)
  with ex_cluster_alice ex_cluster_bob ex_save_alice ex_save_bob show ?thesis by blast
qed

lemma ex_cluster_state:
  "cluster_rows (85 / 100) 0 ex_frags initial_state =
     Inr \<lparr>entity_groups = [(''E-000001'', [Some ''alice@example.com'', Some ''alice@example.com'']),
                            (''E-000002'', [Some ''bob@example.com''])],
          cmapping = ex_mapping, entity_counter = 2\<rparr>"
  by code_simp

text \<open>
  Claim C6 as amended.  Within one call of \<^verbatim>\<open>cluster_fragments\<close> the entity ids are
  unique: when the call has created \<open>k\<close> clusters (the counter is \<open>k\<close>), the clusters
  carry, in order of creation, the ids of the numbers 1 to \<open>k\<close>, which are pairwise
  distinct because different numbers give different ids; the mapping uses exactly
  these \<open>k\<close> ids, and it is the mapping the call returns.  Within the store an entity id
  occurs in at most one row after \<^verbatim>\<open>save_mapping\<close>.  Ids of separate calls are not kept
  apart.
\<close>

theorem entity_ids_unique_per_pass:
  "(cluster_rows t 0 frs initial_state = Inr st \<longrightarrow>
      map fst (entity_groups st) = map format_entity_id [1..<Suc (entity_counter st)] \<and>
      distinct (map fst (entity_groups st)) \<and>
      length (entity_groups st) = entity_counter st \<and>
      set (mapping_entity_ids (cmapping st)) = set (map fst (entity_groups st)) \<and>
      entity_count (cmapping st) = entity_counter st \<and>
      (\<not> list_all (\<lambda>f. fvalue f = None) frs \<longrightarrow> cluster_fragments frs t = Inr (cmapping st))) \<and>
   (cluster_fragments frs t = Inr m \<longrightarrow>
      set (mapping_entity_ids m) = format_entity_id ` {1..entity_count m}) \<and>
   (format_entity_id a = format_entity_id b \<longrightarrow> a = b) \<and>
   (pk_ok s \<and> save_mapping s m' frs' gen ts = Inr s' \<longrightarrow> distinct (map e_entity_id (entities s')))"
proof (intro conjI impI)
  assume run: "cluster_rows t 0 frs initial_state = Inr st"
  from cluster_rows_ids_ok [OF run ids_ok_initial] have ok: "ids_ok st" .
  then have
    a1: "map fst (entity_groups st) = map format_entity_id [1..<Suc (entity_counter st)]" and
    a2: "set (map (\<lambda>(idx, info). m_entity_id info) (cmapping st)) = set (map fst (entity_groups st))"
    unfolding ids_ok_def by blast+
  show "map fst (entity_groups st) = map format_entity_id [1..<Suc (entity_counter st)]" by (rule a1)
  have "inj_on format_entity_id (set [1..<Suc (entity_counter st)])"
    by (rule inj_onI) (rule format_entity_id_inj)
  then show "distinct (map fst (entity_groups st))"
    unfolding a1 by (simp only: distinct_map distinct_upt simp_thms)
  have "length (map fst (entity_groups st)) = length (map format_entity_id [1..<Suc (entity_counter st)])"
    by (simp only: a1)
  then show "length (entity_groups st) = entity_counter st" by simp
  show "set (mapping_entity_ids (cmapping st)) = set (map fst (entity_groups st))"
    unfolding mapping_entity_ids_def set_remdups by (rule a2)
  show "entity_count (cmapping st) = entity_counter st" using ok by (rule entity_count_final)
  {
    assume "\<not> list_all (\<lambda>f. fvalue f = None) frs"
    with run show "cluster_fragments frs t = Inr (cmapping st)"
      by (simp add: cluster_fragments_def initial_state_def)
  }
next
  assume "cluster_fragments frs t = Inr m"
  then show "set (mapping_entity_ids m) = format_entity_id ` {1..entity_count m}"
  proof (cases rule: cluster_fragments_state)
    case no_values
    then show ?thesis by (simp add: mapping_entity_ids_def entity_count_def)
  next
    case (clustered st)
    from clustered(3) have
      a1: "map fst (entity_groups st) = map format_entity_id [1..<Suc (entity_counter st)]" and
      a2: "set (map (\<lambda>(idx, info). m_entity_id info) (cmapping st)) = set (map fst (entity_groups st))"
      unfolding ids_ok_def by blast+
    have "set (mapping_entity_ids m) = set (map format_entity_id [1..<Suc (entity_counter st)])"
      unfolding mapping_entity_ids_def clustered(2) set_remdups by (simp only: a2 a1)
    also have "\<dots> = format_entity_id ` {1..entity_counter st}"
      by (simp only: set_map set_upt atLeastLessThanSuc_atLeastAtMost)
    finally show ?thesis
      using entity_count_final [OF clustered(3)] clustered(2) by simp
  qed
next
  assume "format_entity_id a = format_entity_id b"
  then show "a = b" by (rule format_entity_id_inj)
next
  assume "pk_ok s \<and> save_mapping s m' frs' gen ts = Inr s'"
  then have "pk_ok s'" using pk_ok_save_mapping by blast
  then show "distinct (map e_entity_id (entities s'))" by (simp add: pk_ok_def)
qed

theorem entity_ids_unique_per_pass_witness:
  "cluster_rows (85 / 100) 0 ex_frags initial_state =
     Inr \<lparr>entity_groups = [(''E-000001'', [Some ''alice@example.com'', Some ''alice@example.com'']),
                            (''E-000002'', [Some ''bob@example.com''])],
          cmapping = ex_mapping, entity_counter = 2\<rparr> \<and>
   entity_count ex_mapping = 2 \<and> cluster_fragments ex_frags (85 / 100) = Inr ex_mapping \<and>
   pk_ok init_db \<and> distinct (map e_entity_id (entities (ex_saved 5)))"
proof -
  let ?st = "\<lparr>entity_groups = [(''E-000001'', [Some ''alice@example.com'', Some ''alice@example.com'']),
                            (''E-000002'', [Some ''bob@example.com''])],
          cmapping = ex_mapping, entity_counter = 2\<rparr>"
  have p: "pk_ok init_db" by (simp add: pk_ok_def init_db_def)
  have nv: "\<not> list_all (\<lambda>f. fvalue f = None) ex_frags" by (simp add: ex_frags_def)
  from entity_ids_unique_per_pass [of "85 / 100" ex_frags ?st ex_mapping 1 1 init_db ex_mapping ex_frags ex_gen 5 "ex_saved 5"]
    ex_cluster_state ex_save_first [of 5] p nv
  have "entity_count (cmapping ?st) = entity_counter ?st"
    "cluster_fragments ex_frags (85 / 100) = Inr (cmapping ?st)"
    "distinct (map e_entity_id (entities (ex_saved 5)))" by blast+
  with ex_cluster_state p show ?thesis by simp
qed

end
